theory Spec2Isabelle
  imports Main "HOL-Library.AList"
begin

section \<open>The sale bot of \<^verbatim>\<open>bot.js\<close>: data model\<close>

text \<open>
  The program is a Telegraf bot over an SQLite database. The embedding keeps the two
  tables as lists of rows, the per-chat session store as a map from Telegraf's session key
  (sender id and chat id) to the flow object, and every call to the messaging gateway as
  an entry of an output list. Conventions:
  \<^item> a JavaScript string that the program inspects is a \<open>jstring\<close>, the list of its
    UTF-16 code units; \<open>js\<close> turns an ASCII literal into one. File ids and command names,
    which the program only passes on or compares, stay \<open>string\<close>;
  \<^item> a flow that JavaScript tests as falsy (\<^verbatim>\<open>ctx.session\<close> undefined, \<^verbatim>\<open>flow\<close>
    undefined or \<^verbatim>\<open>null\<close>) is \<open>None\<close>; \<^verbatim>\<open>flow.proof\<close> undefined is the empty list;
  \<^item> the account details object and its JSON text are one association list, in the order
    in which JavaScript enumerates the keys; \<open>NULL\<close> is \<open>None\<close>;
  \<^item> \<^verbatim>\<open>nowISO()\<close> is the clock reading carried by the update;
  \<^item> message texts are constructors of \<open>msg\<close> carrying the interpolated values;
  \<^item> an update says which calls the gateway accepts while it is handled; a call that is not
    accepted throws, which ends the handler unless the call stands in a \<^verbatim>\<open>try\<close>; the
    output list holds the calls made, the refused ones included;
  \<^item> the session middleware is taken to keep the session object as the handler leaves it,
    also when the handler throws;
  \<^item> a text is a well-formed string as Telegram delivers it, and the database returns
    every string as it was stored.
\<close>

datatype tx_type = Crypto | Giftcard

datatype status = Pending | Approved | Rejected | Completed

datatype step = Choose_type | Currency | Await_proof | Await_admin_note

datatype decision = Approve | Reject

type_synonym jstring = "nat list"

definition js :: "string \<Rightarrow> jstring" where
  "js s = map of_char s"

type_synonym details = "(jstring \<times> jstring) list"

datatype tx_note =
    Rejected_by_admin int nat
  | Approved_by_admin int nat
  | User_confirmed_saved nat
  | User_provided_details nat

record proof_file =
  file_id :: string
  file_type :: string
  date :: nat

record user_row =
  u_id :: int
  username :: "jstring option"
  full_name :: jstring
  account_details :: "details option"
  u_created_at :: nat

record tx_row =
  tx_id :: nat
  user_id :: int
  tx_kind :: tx_type
  amount :: "jstring option"
  currency_or_card :: "jstring option"
  status :: status
  proof_files :: "proof_file list"
  created_at :: nat
  admin_note :: "tx_note option"

record flow =
  step :: step
  ftype :: tx_type
  f_amount :: "jstring option"
  f_currency_or_card :: "jstring option"
  f_proof :: "proof_file list"

record sender =
  sender_id :: int
  first_name :: "jstring option"
  last_name :: "jstring option"
  sender_username :: "jstring option"

datatype msg =
    Welcome jstring
  | No_account_details
  | Saved_account_details details
  | You_chose tx_type
  | Which_crypto
  | Which_giftcard
  | Upload_proof
  | Admin_note_received
  | Photo_not_in_flow
  | Image_received
  | Not_in_sale
  | Upload_at_least_one
  | New_sale tx_type nat sender "jstring option" "jstring option"
  | Submission_pending
  | Only_admin_action
  | Tx_not_found
  | Tx_rejected_edit nat
  | Tx_rejected_user nat
  | Rejected_ack
  | Tx_approved_edit nat
  | Approved_confirm_saved nat details
  | Approved_send_details nat
  | Approved_summary nat int "jstring option" "jstring option" "details option" "string list"
  | Approved_ack
  | Saved_details_attached
  | Completed_confirmed nat int details
  | Could_not_parse
  | Details_saved
  | Completed_provided nat int details
  | Only_admin_command
  | Broadcast_usage
  | Broadcast jstring
  | Broadcast_sent nat
  | Help_text

datatype out =
    Send_message int msg
  | Send_message_buttons int msg nat
  | Send_photo_buttons int string msg nat
  | Send_media_group int "string list"
  | Edit_message_text msg
  | Answer_cb_query msg bool

text \<open>
  The payload of an update. A text message carries its text and, when Telegram attached a
  \<^verbatim>\<open>bot_command\<close> entity at offset 0, the command name without the slash. A photo
  message carries the file ids of its sizes, smallest first. A callback query whose data
  matches \<^verbatim>\<open>/^(approve|reject):(\d+)$/\<close> carries the action and the parsed id.
\<close>

datatype payload =
    Text jstring "string option"
  | Photo "string list"
  | Callback decision nat
  | Other

text \<open>
  An update: its sender, chat and payload, the clock reading when it is handled, and the
  calls that the gateway accepts meanwhile.
\<close>

record update =
  sent_by :: sender
  chat :: int
  clock :: nat
  payload :: payload
  accepts :: "out \<Rightarrow> bool"

record state =
  users :: "user_row list"
  transactions :: "tx_row list"
  sessions :: "int \<times> int \<Rightarrow> flow option"

section \<open>String primitives\<close>

text \<open>
  \<^verbatim>\<open>String.prototype.trim\<close> and the class \<^verbatim>\<open>\s\<close> strip the white space and the line
  terminators of ECMAScript: TAB, LF, VT, FF, CR, the space, the no-break space, U+1680,
  U+2000 to U+200A, U+2028, U+2029, U+202F, U+205F, U+3000 and U+FEFF.
\<close>

definition js_is_space :: "nat \<Rightarrow> bool" where
  "js_is_space c =
     ((0x09 \<le> c \<and> c \<le> 0x0D) \<or> c = 0x20 \<or> c = 0xA0 \<or> c = 0x1680
      \<or> (0x2000 \<le> c \<and> c \<le> 0x200A) \<or> c = 0x2028 \<or> c = 0x2029 \<or> c = 0x202F
      \<or> c = 0x205F \<or> c = 0x3000 \<or> c = 0xFEFF)"

definition js_trim :: "jstring \<Rightarrow> jstring" where
  "js_trim s = rev (dropWhile js_is_space (rev (dropWhile js_is_space s)))"

text \<open>
  \<^verbatim>\<open>String.prototype.toUpperCase\<close>, code unit by code unit. The table holds every
  character whose upper case has an ASCII code unit: the small ASCII letters, the dotless
  i, the long s, the sharp s, the Latin ligatures U+FB00 to U+FB06, and the letters that
  become an ASCII capital with a modifier or combining mark. Every other character has an
  upper case without ASCII code units and is kept as it is: the program only compares the
  result with the ASCII constant \<^verbatim>\<open>CONFIRM\<close>, which no such character can take part in.
\<close>

definition upper_units :: "nat \<Rightarrow> jstring" where
  "upper_units c =
     (if 0x61 \<le> c \<and> c \<le> 0x7A then [c - 0x20]
      else if c = 0xDF then [0x53, 0x53]
      else if c = 0x131 then [0x49]
      else if c = 0x149 then [0x2BC, 0x4E]
      else if c = 0x17F then [0x53]
      else if c = 0x1F0 then [0x4A, 0x30C]
      else if c = 0x1E96 then [0x48, 0x331]
      else if c = 0x1E97 then [0x54, 0x308]
      else if c = 0x1E98 then [0x57, 0x30A]
      else if c = 0x1E99 then [0x59, 0x30A]
      else if c = 0x1E9A then [0x41, 0x2BE]
      else if c = 0xFB00 then [0x46, 0x46]
      else if c = 0xFB01 then [0x46, 0x49]
      else if c = 0xFB02 then [0x46, 0x4C]
      else if c = 0xFB03 then [0x46, 0x46, 0x49]
      else if c = 0xFB04 then [0x46, 0x46, 0x4C]
      else if c = 0xFB05 then [0x53, 0x54]
      else if c = 0xFB06 then [0x53, 0x54]
      else [c])"

definition toUpperCase :: "jstring \<Rightarrow> jstring" where
  "toUpperCase s = concat (map upper_units s)"

text \<open>
  \<^verbatim>\<open>String.prototype.toLowerCase\<close>, likewise: the capital ASCII letters, the dotted
  capital I and the Kelvin sign are the characters whose lower case has an ASCII code unit.
  The program only searches the result for the ASCII word \<^verbatim>\<open>crypto\<close>.
\<close>

definition lower_units :: "nat \<Rightarrow> jstring" where
  "lower_units c =
     (if 0x41 \<le> c \<and> c \<le> 0x5A then [c + 0x20]
      else if c = 0x130 then [0x69, 0x307]
      else if c = 0x212A then [0x6B]
      else [c])"

definition toLowerCase :: "jstring \<Rightarrow> jstring" where
  "toLowerCase s = concat (map lower_units s)"

text \<open>
  The flag \<^verbatim>\<open>i\<close> of a regular expression without the flag \<^verbatim>\<open>u\<close> compares the
  canonical forms of two code units: the upper case when that is one code unit, except
  that a character outside ASCII never becomes an ASCII one. Against the ASCII patterns of
  the program only the small ASCII letters matter.
\<close>

definition canonicalize :: "nat \<Rightarrow> nat" where
  "canonicalize c = (if 0x61 \<le> c \<and> c \<le> 0x7A then c - 0x20 else c)"

definition matches_ignoring_case :: "string \<Rightarrow> jstring \<Rightarrow> bool" where
  "matches_ignoring_case pattern s = (map canonicalize s = map canonicalize (js pattern))"

fun js_includes :: "jstring \<Rightarrow> jstring \<Rightarrow> bool" where
  "js_includes sub [] = (sub = [])"
| "js_includes sub (c # cs) = (take (length sub) (c # cs) = sub \<or> js_includes sub cs)"

fun split_on :: "nat \<Rightarrow> jstring \<Rightarrow> jstring list" where
  "split_on d [] = [[]]"
| "split_on d (c # cs) =
     (if c = d then [] # split_on d cs
      else (case split_on d cs of [] \<Rightarrow> [[c]] | l # ls \<Rightarrow> (c # l) # ls))"

definition indexOf :: "nat \<Rightarrow> jstring \<Rightarrow> nat option" where
  "indexOf c s = (if c \<in> set s then Some (length (takeWhile (\<lambda>x. x \<noteq> c) s)) else None)"

definition or_empty :: "jstring option \<Rightarrow> jstring" where
  "or_empty x = (case x of None \<Rightarrow> [] | Some s \<Rightarrow> s)"

section \<open>Prepared statements\<close>

text \<open>
  A table is the list of its rows in the order of insertion. The id columns are the primary
  keys: \<^verbatim>\<open>INSERT OR IGNORE\<close> adds a user only when the id is new, and
  \<^verbatim>\<open>AUTOINCREMENT\<close> gives a transaction one more than the largest id used so far,
  which is the largest id in the table since no row is ever deleted. An \<^verbatim>\<open>UPDATE\<close>
  rewrites every row with the given id and does nothing when there is none.
\<close>

definition insertUser :: "sender \<Rightarrow> nat \<Rightarrow> user_row list \<Rightarrow> user_row list" where
  "insertUser f t us =
     (if sender_id f \<in> set (map u_id us) then us
      else us @ [\<lparr>u_id = sender_id f,
                  username = (case sender_username f of Some [] \<Rightarrow> None | x \<Rightarrow> x),
                  full_name = js_trim (or_empty (first_name f) @ js '' '' @ or_empty (last_name f)),
                  account_details = None,
                  u_created_at = t\<rparr>])"

definition upsertAccount :: "int \<Rightarrow> details \<Rightarrow> user_row list \<Rightarrow> user_row list" where
  "upsertAccount i d us =
     map (\<lambda>u. if u_id u = i then u\<lparr>account_details := Some d\<rparr> else u) us"

definition getUser :: "user_row list \<Rightarrow> int \<Rightarrow> user_row option" where
  "getUser us i = find (\<lambda>u. u_id u = i) us"

definition lastInsertRowid :: "tx_row list \<Rightarrow> nat" where
  "lastInsertRowid ts = Suc (fold max (map tx_id ts) 0)"

definition getTxById :: "tx_row list \<Rightarrow> nat \<Rightarrow> tx_row option" where
  "getTxById ts i = find (\<lambda>t. tx_id t = i) ts"

definition updateTxStatus :: "nat \<Rightarrow> status \<Rightarrow> tx_note \<Rightarrow> tx_row list \<Rightarrow> tx_row list" where
  "updateTxStatus i s n ts =
     map (\<lambda>t. if tx_id t = i then t\<lparr>status := s, admin_note := Some n\<rparr> else t) ts"

text \<open>\<^verbatim>\<open>SELECT * FROM transactions WHERE user_id = ? AND status = 'approved' ORDER BY id DESC LIMIT 1\<close>\<close>

definition latestApproved :: "tx_row list \<Rightarrow> int \<Rightarrow> tx_row option" where
  "latestApproved ts uid =
     fold (\<lambda>t best. if user_id t = uid \<and> status t = Approved \<and>
                        (case best of None \<Rightarrow> True | Some b \<Rightarrow> tx_id b < tx_id t)
                     then Some t else best) ts None"

definition listUsers :: "user_row list \<Rightarrow> int list" where
  "listUsers us = sort (map u_id us)"

section \<open>The account-details parser\<close>

text \<open>
  The details object is the list of its properties in the order in which JavaScript
  enumerates them: first the keys that are array indices (the decimal numerals without a
  leading zero below \<open>2\<^sup>3\<^sup>2 - 1\<close>), ascending, then the other keys in the order of their
  creation. \<^verbatim>\<open>JSON.stringify\<close> and \<^verbatim>\<open>JSON.parse\<close> keep that order.
\<close>

definition is_digit :: "nat \<Rightarrow> bool" where
  "is_digit c = (0x30 \<le> c \<and> c \<le> 0x39)"

definition digits_value :: "jstring \<Rightarrow> nat" where
  "digits_value k = foldl (\<lambda>n c. 10 * n + (c - 0x30)) 0 k"

definition array_index :: "jstring \<Rightarrow> nat option" where
  "array_index k =
     (if k \<noteq> [] \<and> list_all is_digit k \<and> (k = [0x30] \<or> hd k \<noteq> 0x30)
         \<and> digits_value k < 4294967295
      then Some (digits_value k) else None)"

fun insert_index :: "nat \<Rightarrow> jstring \<Rightarrow> jstring \<Rightarrow> details \<Rightarrow> details" where
  "insert_index n k v [] = [(k, v)]"
| "insert_index n k v (p # ps) =
     (case array_index (fst p) of
        Some m \<Rightarrow> if m < n then p # insert_index n k v ps else (k, v) # p # ps
      | None \<Rightarrow> (k, v) # p # ps)"

text \<open>
  \<^verbatim>\<open>obj[k] = v\<close> on an object literal: an existing key keeps its place, a new array index
  goes among the indices, any other new key goes to the end. The key \<^verbatim>\<open>__proto__\<close> is
  the accessor inherited from \<^verbatim>\<open>Object.prototype\<close>, whose setter ignores a value that is
  not an object: assigning a string to it adds no property.
\<close>

definition set_property :: "jstring \<Rightarrow> jstring \<Rightarrow> details \<Rightarrow> details" where
  "set_property k v obj =
     (if k = js ''__proto__'' then obj
      else if k \<in> set (map fst obj) then AList.update k v obj
      else (case array_index k of
              Some n \<Rightarrow> insert_index n k v obj
            | None \<Rightarrow> obj @ [(k, v)]))"

definition parse_line :: "details \<Rightarrow> jstring \<Rightarrow> details" where
  "parse_line obj line =
     (case indexOf 0x3A line of
        None \<Rightarrow> obj
      | Some idx \<Rightarrow>
          if 0 < idx then
            (let k = js_trim (take idx line); v = js_trim (drop (idx + 1) line)
             in if k \<noteq> [] then set_property k v obj else obj)
          else obj)"

definition parse_account_details :: "jstring \<Rightarrow> details" where
  "parse_account_details text =
     foldl parse_line [] (filter (\<lambda>l. l \<noteq> []) (map js_trim (split_on 0x0A text)))"

section \<open>Handlers, in the order of their registration\<close>

text \<open>
  The calls of a handler up to the first one that the gateway refuses: the refused call
  throws and the calls after it are not made.
\<close>

fun attempt :: "(out \<Rightarrow> bool) \<Rightarrow> out list \<Rightarrow> out list" where
  "attempt acc [] = []"
| "attempt acc (c # cs) = (if acc c then c # attempt acc cs else [c])"

definition session_key :: "update \<Rightarrow> int \<times> int" where
  "session_key u = (sender_id (sent_by u), chat u)"

definition user_seen :: "state \<Rightarrow> update \<Rightarrow> state" where
  "user_seen st u = st\<lparr>users := insertUser (sent_by u) (clock u) (users st)\<rparr>"

definition start_handler :: "state \<Rightarrow> update \<Rightarrow> state \<times> out list" where
  "start_handler st u = (st, [Send_message (chat u) (Welcome (or_empty (first_name (sent_by u))))])"

text \<open>\<^verbatim>\<open>/^My Account$/i\<close>\<close>

definition hears_my_account :: "jstring \<Rightarrow> bool" where
  "hears_my_account text = matches_ignoring_case ''My Account'' text"

definition saved_details :: "user_row option \<Rightarrow> details option" where
  "saved_details user = (case user of None \<Rightarrow> None | Some r \<Rightarrow> account_details r)"

definition my_account_handler :: "state \<Rightarrow> update \<Rightarrow> state \<times> out list" where
  "my_account_handler st u =
     (case saved_details (getUser (users st) (sender_id (sent_by u))) of
        None \<Rightarrow> (st, [Send_message (chat u) No_account_details])
      | Some account \<Rightarrow> (st, [Send_message (chat u) (Saved_account_details account)]))"

text \<open>\<^verbatim>\<open>/^(Sell Crypto|Sell Giftcard)$/i\<close>\<close>

definition hears_sell :: "jstring \<Rightarrow> bool" where
  "hears_sell text =
     (matches_ignoring_case ''Sell Crypto'' text \<or> matches_ignoring_case ''Sell Giftcard'' text)"

definition sell_handler :: "state \<Rightarrow> update \<Rightarrow> jstring \<Rightarrow> state \<times> out list" where
  "sell_handler st u text =
     (let ty = (if js_includes (js ''crypto'') (toLowerCase text) then Crypto else Giftcard)
      in (st\<lparr>sessions := (sessions st)(session_key u \<mapsto>
                \<lparr>step = Choose_type, ftype = ty, f_amount = None,
                 f_currency_or_card = None, f_proof = []\<rparr>)\<rparr>,
          [Send_message (chat u) (You_chose ty)]))"

text \<open>The first \<^verbatim>\<open>bot.on('text')\<close> handler; \<open>None\<close> is \<^verbatim>\<open>return next()\<close>.\<close>

definition flow_text_handler ::
  "int \<Rightarrow> state \<Rightarrow> update \<Rightarrow> jstring \<Rightarrow> (state \<times> out list) option" where
  "flow_text_handler admin st u raw =
     (case sessions st (session_key u) of
        None \<Rightarrow> None
      | Some fl \<Rightarrow>
          (let text = js_trim raw in
           if step fl = Choose_type then
             Some (st\<lparr>sessions := (sessions st)(session_key u \<mapsto>
                        fl\<lparr>f_amount := Some text, step := Currency\<rparr>)\<rparr>,
                   [Send_message (chat u)
                      (if ftype fl = Crypto then Which_crypto else Which_giftcard)])
           else if step fl = Currency then
             Some (st\<lparr>sessions := (sessions st)(session_key u \<mapsto>
                        fl\<lparr>f_currency_or_card := Some text, step := Await_proof\<rparr>)\<rparr>,
                   [Send_message (chat u) Upload_proof])
           else if step fl = Await_admin_note \<and> sender_id (sent_by u) = admin then
             Some (st, [Send_message (chat u) Admin_note_received])
           else None))"

text \<open>
  \<^verbatim>\<open>bot.on('photo')\<close>. Reading \<^verbatim>\<open>file.file_id\<close> of an empty size array throws before
  any call is made; the error reaches \<^verbatim>\<open>bot.catch\<close>, which logs it.
\<close>

definition photo_handler :: "state \<Rightarrow> update \<Rightarrow> string list \<Rightarrow> state \<times> out list" where
  "photo_handler st u photos =
     (case sessions st (session_key u) of
        None \<Rightarrow> (st, [Send_message (chat u) Photo_not_in_flow])
      | Some fl \<Rightarrow>
          if step fl \<noteq> Await_proof then (st, [Send_message (chat u) Photo_not_in_flow])
          else if photos = [] then (st, [])
          else (st\<lparr>sessions := (sessions st)(session_key u \<mapsto>
                      fl\<lparr>f_proof := f_proof fl @
                         [\<lparr>file_id = last photos, file_type = ''photo'', date = clock u\<rparr>]\<rparr>)\<rparr>,
                [Send_message (chat u) Image_received]))"

text \<open>
  \<^verbatim>\<open>bot.command('done')\<close>. The calls to the administrator stand in a \<^verbatim>\<open>try\<close>: a
  refused one is logged and the handler goes on. The confirmation to the user does not,
  and the flow is reset only after it: when it is refused, the transaction is there and
  the flow stays.
\<close>

definition done_handler :: "int \<Rightarrow> state \<Rightarrow> update \<Rightarrow> state \<times> out list" where
  "done_handler admin st u =
     (case sessions st (session_key u) of
        None \<Rightarrow> (st, [Send_message (chat u) Not_in_sale])
      | Some fl \<Rightarrow>
          if step fl \<noteq> Await_proof then (st, [Send_message (chat u) Not_in_sale])
          else if f_proof fl = [] then (st, [Send_message (chat u) Upload_at_least_one])
          else
            (let txId = lastInsertRowid (transactions st);
                 tx = \<lparr>tx_id = txId, user_id = sender_id (sent_by u), tx_kind = ftype fl,
                       amount = f_amount fl, currency_or_card = f_currency_or_card fl,
                       status = Pending, proof_files = f_proof fl, created_at = clock u,
                       admin_note = None\<rparr>;
                 caption = New_sale (ftype fl) txId (sent_by u) (f_amount fl)
                             (f_currency_or_card fl);
                 files = f_proof fl;
                 confirmation = Send_message (chat u) Submission_pending
             in (st\<lparr>transactions := transactions st @ [tx],
                    sessions := (if accepts u confirmation
                                 then (sessions st)(session_key u := None)
                                 else sessions st)\<rparr>,
                 attempt (accepts u)
                   (if length files = 1
                    then [Send_photo_buttons admin (file_id (files ! 0)) caption txId]
                    else [Send_media_group admin (map file_id files),
                          Send_message_buttons admin caption txId])
                 @ [confirmation])))"

text \<open>The two tests of the stored details: the approval handler's and the reconciler's.\<close>

definition approval_has_saved :: "details option \<Rightarrow> bool" where
  "approval_has_saved saved = (case saved of None \<Rightarrow> False | Some d \<Rightarrow> 0 < length (map fst d))"

definition reconciler_has_saved :: "details option \<Rightarrow> bool" where
  "reconciler_has_saved saved = (saved \<noteq> None)"

definition action_handler ::
  "int \<Rightarrow> state \<Rightarrow> update \<Rightarrow> decision \<Rightarrow> nat \<Rightarrow> state \<times> out list" where
  "action_handler admin st u act txId =
     (if sender_id (sent_by u) \<noteq> admin then (st, [Answer_cb_query Only_admin_action True])
      else
        (case getTxById (transactions st) txId of
           None \<Rightarrow> (st, [Answer_cb_query Tx_not_found True])
         | Some txRow \<Rightarrow>
             if act = Reject then
               (st\<lparr>transactions := updateTxStatus txId Rejected
                      (Rejected_by_admin (sender_id (sent_by u)) (clock u)) (transactions st)\<rparr>,
                attempt (accepts u)
                  [Edit_message_text (Tx_rejected_edit txId),
                   Send_message (user_id txRow) (Tx_rejected_user txId),
                   Answer_cb_query Rejected_ack False])
             else
               (let saved = saved_details (getUser (users st) (user_id txRow))
                in (st\<lparr>transactions := updateTxStatus txId Approved
                         (Approved_by_admin (sender_id (sent_by u)) (clock u)) (transactions st)\<rparr>,
                    attempt (accepts u)
                      [Edit_message_text (Tx_approved_edit txId),
                       Send_message (user_id txRow)
                         (if approval_has_saved saved
                          then Approved_confirm_saved txId
                                 (case saved of Some d \<Rightarrow> d | None \<Rightarrow> [])
                          else Approved_send_details txId),
                       Send_message admin
                         (Approved_summary txId (user_id txRow) (amount txRow)
                            (currency_or_card txRow) saved (map file_id (proof_files txRow))),
                       Answer_cb_query Approved_ack False]))))"

text \<open>The second \<^verbatim>\<open>bot.on('text')\<close> handler; \<open>None\<close> is \<^verbatim>\<open>return next()\<close>.\<close>

definition post_approval_text_handler ::
  "int \<Rightarrow> state \<Rightarrow> update \<Rightarrow> jstring \<Rightarrow> (state \<times> out list) option" where
  "post_approval_text_handler admin st u raw =
     (let text = js_trim raw;
          uid = sender_id (sent_by u);
          saved = saved_details (getUser (users st) uid)
      in case latestApproved (transactions st) uid of
           None \<Rightarrow> None
         | Some la \<Rightarrow>
             if toUpperCase text = js ''CONFIRM'' \<and> reconciler_has_saved saved then
               Some (st\<lparr>transactions := updateTxStatus (tx_id la) Completed
                          (User_confirmed_saved (clock u)) (transactions st)\<rparr>,
                     attempt (accepts u)
                       [Send_message (chat u) Saved_details_attached,
                        Send_message admin
                          (Completed_confirmed (tx_id la) uid
                             (case saved of Some d \<Rightarrow> d | None \<Rightarrow> []))])
             else if js_includes (js '':'') text then
               (let obj = parse_account_details text in
                if length (map fst obj) = 0 then Some (st, [Send_message (chat u) Could_not_parse])
                else
                  Some (st\<lparr>users := upsertAccount uid obj (users st),
                           transactions := updateTxStatus (tx_id la) Completed
                             (User_provided_details (clock u)) (transactions st)\<rparr>,
                        attempt (accepts u)
                          [Send_message (chat u) Details_saved,
                           Send_message admin (Completed_provided (tx_id la) uid obj)]))
             else None)"

text \<open>\<^verbatim>\<open>text.replace(/^\/broadcast\s*/i, '')\<close>\<close>

definition strip_broadcast :: "jstring \<Rightarrow> jstring" where
  "strip_broadcast text =
     (if matches_ignoring_case ''/broadcast'' (take 10 text)
      then dropWhile js_is_space (drop 10 text)
      else text)"

text \<open>
  \<^verbatim>\<open>bot.command('broadcast')\<close>. Every send to a user stands in its own \<^verbatim>\<open>try\<close>; the
  accepted ones are counted.
\<close>

definition broadcast_handler :: "int \<Rightarrow> state \<Rightarrow> update \<Rightarrow> jstring \<Rightarrow> state \<times> out list" where
  "broadcast_handler admin st u raw =
     (if sender_id (sent_by u) \<noteq> admin then (st, [Send_message (chat u) Only_admin_command])
      else
        (let text = js_trim (strip_broadcast raw);
             sends = map (\<lambda>i. Send_message i (Broadcast text)) (listUsers (users st))
         in if text = [] then (st, [Send_message (chat u) Broadcast_usage])
            else (st, sends @
                      [Send_message (chat u) (Broadcast_sent (length (filter (accepts u) sends)))])))"

definition help_handler :: "state \<Rightarrow> update \<Rightarrow> state \<times> out list" where
  "help_handler st u = (st, [Send_message (chat u) Help_text])"

section \<open>Dispatch\<close>

text \<open>
  Telegraf runs the middleware in the order of registration; a handler that does not call
  \<^verbatim>\<open>next()\<close> ends the chain. \<^verbatim>\<open>bot.start\<close>, \<^verbatim>\<open>bot.hears\<close> and \<^verbatim>\<open>bot.command\<close>
  look at text messages only, \<^verbatim>\<open>bot.action\<close> at callback queries only.
\<close>

definition handle_text ::
  "int \<Rightarrow> state \<Rightarrow> update \<Rightarrow> jstring \<Rightarrow> string option \<Rightarrow> state \<times> out list" where
  "handle_text admin st u text cmd =
     (if cmd = Some ''start'' then start_handler st u
      else if hears_my_account text then my_account_handler st u
      else if hears_sell text then sell_handler st u text
      else
        (case flow_text_handler admin st u text of
           Some r \<Rightarrow> r
         | None \<Rightarrow>
             if cmd = Some ''done'' then done_handler admin st u
             else
               (case post_approval_text_handler admin st u text of
                  Some r \<Rightarrow> r
                | None \<Rightarrow>
                    if cmd = Some ''broadcast'' then broadcast_handler admin st u text
                    else if cmd = Some ''help'' then help_handler st u
                    else (st, []))))"

definition handle_update :: "int \<Rightarrow> state \<Rightarrow> update \<Rightarrow> state \<times> out list" where
  "handle_update admin st u =
     (let st1 = user_seen st u in
      case payload u of
        Text text cmd \<Rightarrow> handle_text admin st1 u text cmd
      | Photo photos \<Rightarrow> photo_handler st1 u photos
      | Callback act txId \<Rightarrow> action_handler admin st1 u act txId
      | Other \<Rightarrow> (st1, []))"

fun run :: "int \<Rightarrow> state \<Rightarrow> update list \<Rightarrow> state" where
  "run admin st [] = st"
| "run admin st (u # us) = run admin (fst (handle_update admin st u)) us"

definition init :: state where
  "init = \<lparr>users = [], transactions = [], sessions = (\<lambda>k. None)\<rparr>"

section \<open>Vocabulary of the properties\<close>

text \<open>
  The finish command: a text message that begins with \<^verbatim>\<open>/done\<close> and carries the
  matching command entity.
\<close>

definition is_finish_command :: "update \<Rightarrow> bool" where
  "is_finish_command u =
     (case payload u of
        Text text cmd \<Rightarrow> cmd = Some ''done'' \<and> take 5 text = js ''/done''
      | _ \<Rightarrow> False)"

text \<open>
  The reconciler declines a text: the sender has no approved transaction, or the text is
  neither the confirmation token with stored details nor contains a colon.
\<close>

definition reconciler_declines :: "state \<Rightarrow> update \<Rightarrow> jstring \<Rightarrow> bool" where
  "reconciler_declines st u raw =
     (latestApproved (transactions st) (sender_id (sent_by u)) = None
      \<or> \<not> (toUpperCase (js_trim raw) = js ''CONFIRM''
            \<and> saved_details (getUser (users st) (sender_id (sent_by u))) \<noteq> None)
        \<and> \<not> js_includes (js '':'') (js_trim raw))"

text \<open>
  The status of the transaction with a given id, the transitions of the lifecycle
  \<open>pending \<rightarrow> approved \<rightarrow> completed\<close>, \<open>pending \<rightarrow> rejected\<close> (and staying put), the
  statuses of a transaction along a run, and the runs in which the administrator never
  decides a transaction that is no longer pending.
\<close>

definition status_of :: "tx_row list \<Rightarrow> nat \<Rightarrow> status option" where
  "status_of ts i = map_option status (getTxById ts i)"

definition tx_status :: "state \<Rightarrow> nat \<Rightarrow> status option" where
  "tx_status st i = status_of (transactions st) i"

fun valid_step :: "status option \<Rightarrow> status option \<Rightarrow> bool" where
  "valid_step None None = True"
| "valid_step None (Some s) = (s = Pending)"
| "valid_step (Some s) None = False"
| "valid_step (Some s) (Some s') =
     (s = s' \<or> (s = Pending \<and> s' = Approved) \<or> (s = Pending \<and> s' = Rejected)
      \<or> (s = Approved \<and> s' = Completed))"

definition redecides :: "int \<Rightarrow> state \<Rightarrow> update \<Rightarrow> nat \<Rightarrow> bool" where
  "redecides admin st u i =
     (case payload u of
        Callback act j \<Rightarrow>
          j = i \<and> sender_id (sent_by u) = admin
          \<and> (case tx_status st i of None \<Rightarrow> False | Some s \<Rightarrow> s \<noteq> Pending)
      | _ \<Rightarrow> False)"

fun decided_once :: "int \<Rightarrow> state \<Rightarrow> update list \<Rightarrow> nat \<Rightarrow> bool" where
  "decided_once admin st [] i = True"
| "decided_once admin st (u # us) i =
     (\<not> redecides admin st u i \<and> decided_once admin (fst (handle_update admin st u)) us i)"

fun history :: "int \<Rightarrow> state \<Rightarrow> update list \<Rightarrow> nat \<Rightarrow> status option list" where
  "history admin st [] i = [tx_status st i]"
| "history admin st (u # us) i = tx_status st i # history admin (fst (handle_update admin st u)) us i"

definition decision_status :: "decision \<Rightarrow> status" where
  "decision_status act = (case act of Approve \<Rightarrow> Approved | Reject \<Rightarrow> Rejected)"

text \<open>What one update can do to the transactions table.\<close>

definition tx_change :: "int \<Rightarrow> state \<Rightarrow> update \<Rightarrow> state \<Rightarrow> bool" where
  "tx_change admin st u st' =
   (transactions st' = transactions st
   \<or> (\<exists>tx. transactions st' = transactions st @ [tx]
          \<and> tx_id tx = lastInsertRowid (transactions st) \<and> status tx = Pending
          \<and> proof_files tx \<noteq> [])
   \<or> (\<exists>la n. latestApproved (transactions st) (sender_id (sent_by u)) = Some la
          \<and> transactions st' = updateTxStatus (tx_id la) Completed n (transactions st))
   \<or> (\<exists>act j n. payload u = Callback act j \<and> sender_id (sent_by u) = admin
          \<and> getTxById (transactions st) j \<noteq> None
          \<and> transactions st' = updateTxStatus j (decision_status act) n (transactions st)))"

text \<open>
  A photo message with at least one size. Its attachment is the entry that the photo
  handler appends, the file id of the last (largest) size. The confirmation of a
  submission is the reply that the finish handler awaits before it resets the flow.
\<close>

definition is_photo :: "update \<Rightarrow> bool" where
  "is_photo u = (case payload u of Photo ids \<Rightarrow> ids \<noteq> [] | _ \<Rightarrow> False)"

definition confirmation :: "update \<Rightarrow> out" where
  "confirmation u = Send_message (chat u) Submission_pending"

definition attachments_of :: "update \<Rightarrow> proof_file list" where
  "attachments_of u =
     (case payload u of
        Photo ids \<Rightarrow> [\<lparr>file_id = last ids, file_type = ''photo'', date = clock u\<rparr>]
      | _ \<Rightarrow> [])"

text \<open>
  The flow lets a text through to the later handlers: it is absent or awaits the proof.
\<close>

definition flow_gives_way :: "state \<Rightarrow> update \<Rightarrow> bool" where
  "flow_gives_way st u =
     (case sessions st (session_key u) of None \<Rightarrow> True | Some fl \<Rightarrow> step fl = Await_proof)"

text \<open>
  Stored details that hold at least one entry with a non-empty key (or no details at all),
  a users table in which every row is so, the agreement of the two tests on every row, and
  the rows that a step writes: each row after the step is a row from before or is so.
\<close>

definition details_ok :: "details option \<Rightarrow> bool" where
  "details_ok saved = (case saved of None \<Rightarrow> True | Some d \<Rightarrow> list_ex (\<lambda>k. k \<noteq> []) (map fst d))"

definition users_ok :: "user_row list \<Rightarrow> bool" where
  "users_ok us = list_all (\<lambda>r. details_ok (account_details r)) us"

definition checks_agree :: "user_row list \<Rightarrow> bool" where
  "checks_agree us =
     list_all (\<lambda>r. approval_has_saved (account_details r) = reconciler_has_saved (account_details r)) us"

definition written_ok :: "state \<Rightarrow> state \<Rightarrow> bool" where
  "written_ok st st' =
     list_all (\<lambda>r. r \<in> set (users st) \<or> details_ok (account_details r)) (users st')"

definition users_change :: "state \<Rightarrow> update \<Rightarrow> state \<Rightarrow> bool" where
  "users_change st u st' =
     (users st' = users st
      \<or> (\<exists>raw. parse_account_details (js_trim raw) \<noteq> []
            \<and> users st' = upsertAccount (sender_id (sent_by u))
                             (parse_account_details (js_trim raw)) (users st)))"

text \<open>
  The parser in the words of the specification: split the text on newlines, trim each
  line, split it at its first colon, keep the trimmed key and value of every line that
  gives a non-empty key, and build the mapping from these pairs in order.
\<close>

definition spec_split_first :: "jstring \<Rightarrow> (jstring \<times> jstring) option" where
  "spec_split_first line =
     (if 0x3A \<in> set line
      then Some (takeWhile (\<lambda>c. c \<noteq> 0x3A) line, tl (dropWhile (\<lambda>c. c \<noteq> 0x3A) line))
      else None)"

definition spec_pair :: "jstring \<Rightarrow> (jstring \<times> jstring) option" where
  "spec_pair line =
     (case spec_split_first (js_trim line) of
        None \<Rightarrow> None
      | Some (k, v) \<Rightarrow> if js_trim k \<noteq> [] then Some (js_trim k, js_trim v) else None)"

definition spec_pairs :: "jstring \<Rightarrow> (jstring \<times> jstring) list" where
  "spec_pairs text = List.map_filter spec_pair (split_on 0x0A text)"

definition spec_parse :: "jstring \<Rightarrow> details" where
  "spec_parse text = foldl (\<lambda>obj (k, v). AList.update k v obj) [] (spec_pairs text)"

section \<open>Concrete scenarios\<close>

text \<open>
  Alice sells, the administrator (id 1) decides, each in a private chat; the gateway accepts
  every call unless an update says otherwise.
\<close>

definition alice :: sender where
  "alice = \<lparr>sender_id = 7, first_name = Some (js ''Al''), last_name = None,
            sender_username = None\<rparr>"

definition boss :: sender where
  "boss = \<lparr>sender_id = 1, first_name = Some (js ''Bo''), last_name = None,
           sender_username = None\<rparr>"

definition utters :: "sender \<Rightarrow> jstring \<Rightarrow> update" where
  "utters s t = \<lparr>sent_by = s, chat = sender_id s, clock = 0, payload = Text t None,
                 accepts = (\<lambda>c. True)\<rparr>"

definition says :: "sender \<Rightarrow> string \<Rightarrow> update" where
  "says s t = utters s (js t)"

definition commands :: "sender \<Rightarrow> string \<Rightarrow> update" where
  "commands s c =
     \<lparr>sent_by = s, chat = sender_id s, clock = 0, payload = Text (js (CHR ''/'' # c)) (Some c),
      accepts = (\<lambda>c. True)\<rparr>"

definition shows_photo :: "sender \<Rightarrow> string list \<Rightarrow> update" where
  "shows_photo s ids = \<lparr>sent_by = s, chat = sender_id s, clock = 0, payload = Photo ids,
                        accepts = (\<lambda>c. True)\<rparr>"

definition presses :: "sender \<Rightarrow> decision \<Rightarrow> nat \<Rightarrow> update" where
  "presses s d i = \<lparr>sent_by = s, chat = sender_id s, clock = 0, payload = Callback d i,
                    accepts = (\<lambda>c. True)\<rparr>"

definition unanswered :: "update \<Rightarrow> update" where
  "unanswered u = u\<lparr>accepts := (\<lambda>c. False)\<rparr>"

definition awaiting_proof_empty :: state where
  "awaiting_proof_empty =
     run 1 init [says alice ''Sell Crypto'', says alice ''50'', says alice ''BTC'']"

definition awaiting_amount :: state where
  "awaiting_amount = run 1 init [says alice ''Sell Crypto'']"

definition sale_events :: "update list" where
  "sale_events = [says alice ''Sell Crypto'', says alice ''50'', says alice ''BTC'',
                 shows_photo alice [''small'', ''large''], commands alice ''done'']"

definition pending_sale :: state where
  "pending_sale = run 1 init sale_events"

definition rejected_sale :: state where
  "rejected_sale = run 1 init (sale_events @ [presses boss Reject 1])"

definition settled_sale :: state where
  "settled_sale =
     run 1 init (sale_events @ [presses boss Approve 1, says alice ''a: 1\<newline>b: 2''])"

definition approved_again :: state where
  "approved_again = run 1 settled_sale (sale_events @ [presses boss Approve 2])"

definition mid_flow :: state where
  "mid_flow = run 1 approved_again [says alice ''Sell Crypto'']"

definition first_sale :: tx_row where
  "first_sale =
     \<lparr>tx_id = 1, user_id = 7, tx_kind = Crypto, amount = Some (js ''50''),
       currency_or_card = Some (js ''BTC''), status = Pending,
       proof_files = [\<lparr>file_id = ''large'', file_type = ''photo'', date = 0\<rparr>],
       created_at = 0, admin_note = None\<rparr>"

definition second_sale :: tx_row where
  "second_sale =
     \<lparr>tx_id = 2, user_id = 7, tx_kind = Crypto, amount = Some (js ''50''),
       currency_or_card = Some (js ''BTC''), status = Approved,
       proof_files = [\<lparr>file_id = ''large'', file_type = ''photo'', date = 0\<rparr>],
       created_at = 0, admin_note = Some (Approved_by_admin 1 0)\<rparr>"

definition alice_row :: "details option \<Rightarrow> user_row" where
  "alice_row d = \<lparr>u_id = 7, username = None, full_name = js ''Al'', account_details = d,
                  u_created_at = 0\<rparr>"

definition boss_row :: user_row where
  "boss_row = \<lparr>u_id = 1, username = None, full_name = js ''Bo'', account_details = None,
               u_created_at = 0\<rparr>"

definition new_flow :: flow where
  "new_flow = \<lparr>step = Choose_type, ftype = Crypto, f_amount = None,
               f_currency_or_card = None, f_proof = []\<rparr>"

section \<open>Evaluation and dispatch lemmas\<close>

subsection \<open>Collections of defining equations, and the scenarios evaluated\<close>

lemmas scenario_defs =
  init_def says_def utters_def commands_def shows_photo_def presses_def alice_def boss_def
  first_sale_def second_sale_def alice_row_def boss_row_def new_flow_def unanswered_def
  confirmation_def

lemmas string_defs =
  js_def hears_my_account_def hears_sell_def matches_ignoring_case_def canonicalize_def
  toUpperCase_def upper_units_def toLowerCase_def lower_units_def js_trim_def js_is_space_def
  or_empty_def

lemmas handler_defs =
  handle_update_def handle_text_def user_seen_def insertUser_def session_key_def
  start_handler_def my_account_handler_def sell_handler_def flow_text_handler_def
  photo_handler_def done_handler_def action_handler_def post_approval_text_handler_def
  broadcast_handler_def help_handler_def

lemmas db_defs = getTxById_def getUser_def saved_details_def updateTxStatus_def upsertAccount_def
  lastInsertRowid_def latestApproved_def approval_has_saved_def reconciler_has_saved_def

lemmas parse_defs = parse_account_details_def parse_line_def indexOf_def set_property_def
  array_index_def is_digit_def digits_value_def

lemma attempt_one [simp]: "attempt acc [c] = [c]"
  by simp

lemma slash_not_hears:
  assumes "take 1 raw = js ''/''"
  shows "\<not> hears_my_account raw" "\<not> hears_sell raw"
  using assms
  by (cases raw; simp add: js_def hears_my_account_def hears_sell_def matches_ignoring_case_def
      canonicalize_def)+

lemma awaiting_proof_empty_flow:
  "sessions awaiting_proof_empty (7, 7) =
     Some (new_flow\<lparr>f_amount := Some (js ''50''), f_currency_or_card := Some (js ''BTC''),
                     step := Await_proof\<rparr>)"
  by (simp add: awaiting_proof_empty_def scenario_defs string_defs handler_defs Let_def)

lemma awaiting_amount_flow: "sessions awaiting_amount (7, 7) = Some new_flow"
  by (simp add: awaiting_amount_def scenario_defs string_defs handler_defs Let_def)

lemma pending_sale_eval:
  "transactions pending_sale = [first_sale]"
  "users pending_sale = [alice_row None]"
  "sessions pending_sale (7, 7) = None"
  by (simp_all add: pending_sale_def sale_events_def scenario_defs string_defs handler_defs
      lastInsertRowid_def Let_def)

subsection \<open>The tables and the lifecycle\<close>

lemma find_snoc:
  "find P (xs @ [y]) =
     (case find P xs of None \<Rightarrow> (if P y then Some y else None) | Some x \<Rightarrow> Some x)"
  by (induction xs) auto

lemma find_None_ids: "i \<notin> set (map f xs) \<Longrightarrow> find (\<lambda>x. f x = i) xs = None"
  by (induction xs) auto

lemma saved_details_insertUser:
  "saved_details (getUser (insertUser f t us) i) = saved_details (getUser us i)"
  by (auto simp: insertUser_def getUser_def saved_details_def find_snoc find_None_ids
      split: option.splits)

lemma post_approval_declines:
  assumes "reconciler_declines st u raw"
  shows "post_approval_text_handler admin (user_seen st u) u raw = None"
  using assms
  by (auto simp: reconciler_declines_def post_approval_text_handler_def user_seen_def Let_def
      reconciler_has_saved_def saved_details_insertUser split: option.splits)

lemma run_append: "run admin st (xs @ ys) = run admin (run admin st xs) ys"
  by (induction xs arbitrary: st) simp_all

lemma fold_max_ge: "(a::nat) \<le> fold max xs a"
  by (induction xs arbitrary: a) (auto intro: order_trans [OF max.cobounded2])

lemma fold_max_mem: "(x::nat) \<in> set xs \<Longrightarrow> x \<le> fold max xs a"
proof (induction xs arbitrary: a)
  case Nil then show ?case by simp
next
  case (Cons y ys)
  show ?case
  proof (cases "x = y")
    case True
    have "y \<le> max y a" by simp
    also have "\<dots> \<le> fold max ys (max y a)" by (rule fold_max_ge)
    finally show ?thesis using True by simp
  next
    case False
    with Cons show ?thesis by simp
  qed
qed

lemma lastInsertRowid_fresh: "t \<in> set ts \<Longrightarrow> tx_id t < lastInsertRowid ts"
  using fold_max_mem [of "tx_id t" "map tx_id ts" 0] by (simp add: lastInsertRowid_def)

lemma latestApproved_fold:
  "fold (\<lambda>t best. if user_id t = uid \<and> status t = Approved \<and>
                        (case best of None \<Rightarrow> True | Some b \<Rightarrow> tx_id b < tx_id t)
                     then Some t else best) ts acc = Some la
   \<Longrightarrow> (la \<in> set ts \<and> user_id la = uid \<and> status la = Approved) \<or> acc = Some la"
  by (induction ts arbitrary: acc) (auto split: if_splits)

lemma latestApproved_Some:
  assumes "latestApproved ts uid = Some la"
  shows "la \<in> set ts" "user_id la = uid" "status la = Approved"
  using latestApproved_fold [of uid ts None la] assms by (auto simp: latestApproved_def)

lemma map_tx_id_update [simp]: "map tx_id (updateTxStatus j s n ts) = map tx_id ts"
  by (simp add: updateTxStatus_def)

lemma status_of_update:
  "status_of (updateTxStatus j s n ts) i =
     (if i = j then map_option (\<lambda>_. s) (status_of ts i) else status_of ts i)"
  by (induction ts) (auto simp: status_of_def getTxById_def updateTxStatus_def)

lemma status_of_snoc:
  "status_of (ts @ [t]) i =
     (case status_of ts i of None \<Rightarrow> (if tx_id t = i then Some (status t) else None) | Some s \<Rightarrow> Some s)"
  by (auto simp: status_of_def getTxById_def find_snoc split: option.splits)

lemma status_of_distinct:
  "distinct (map tx_id ts) \<Longrightarrow> t \<in> set ts \<Longrightarrow> status_of ts (tx_id t) = Some (status t)"
  by (induction ts) (auto simp: status_of_def getTxById_def)

lemma status_of_None_iff: "status_of ts i = None \<longleftrightarrow> i \<notin> set (map tx_id ts)"
  by (induction ts) (auto simp: status_of_def getTxById_def)

lemma tx_change_same: "transactions st' = transactions st \<Longrightarrow> tx_change admin st u st'"
  by (simp add: tx_change_def)

lemma flow_text_transactions:
  "flow_text_handler admin st u raw = Some r \<Longrightarrow> transactions (fst r) = transactions st"
  by (auto simp: flow_text_handler_def Let_def split: option.splits if_splits)

lemma done_tx_change: "tx_change admin st u (fst (done_handler admin st u))"
  by (auto simp: tx_change_def done_handler_def Let_def split: option.splits)

lemma post_approval_tx_change:
  "post_approval_text_handler admin st u raw = Some r \<Longrightarrow> tx_change admin st u (fst r)"
  unfolding post_approval_text_handler_def Let_def tx_change_def
  by (cases "latestApproved (transactions st) (sender_id (sent_by u))")
     (auto split: if_splits)

lemma action_tx_change:
  "payload u = Callback act j \<Longrightarrow> tx_change admin st u (fst (action_handler admin st u act j))"
  by (cases act)
     (auto simp: tx_change_def action_handler_def Let_def decision_status_def split: option.splits)

lemma handle_text_tx_change: "tx_change admin st u (fst (handle_text admin st u raw cmd))"
proof -
  consider (a) "cmd = Some ''start''"
    | (b) "cmd \<noteq> Some ''start''" "hears_my_account raw"
    | (c) "cmd \<noteq> Some ''start''" "\<not> hears_my_account raw" "hears_sell raw"
    | (d) r where "cmd \<noteq> Some ''start''" "\<not> hears_my_account raw" "\<not> hears_sell raw"
        "flow_text_handler admin st u raw = Some r"
    | (e) "cmd \<noteq> Some ''start''" "\<not> hears_my_account raw" "\<not> hears_sell raw"
        "flow_text_handler admin st u raw = None" "cmd = Some ''done''"
    | (f) r where "cmd \<noteq> Some ''start''" "\<not> hears_my_account raw" "\<not> hears_sell raw"
        "flow_text_handler admin st u raw = None" "cmd \<noteq> Some ''done''"
        "post_approval_text_handler admin st u raw = Some r"
    | (g) "cmd \<noteq> Some ''start''" "\<not> hears_my_account raw" "\<not> hears_sell raw"
        "flow_text_handler admin st u raw = None" "cmd \<noteq> Some ''done''"
        "post_approval_text_handler admin st u raw = None"
    by (cases "flow_text_handler admin st u raw"; cases "post_approval_text_handler admin st u raw") auto
  then show ?thesis
  proof cases
    case a then show ?thesis
      by (simp add: handle_text_def start_handler_def tx_change_same)
  next
    case b then show ?thesis
      by (simp add: handle_text_def my_account_handler_def tx_change_same split: option.splits)
  next
    case c then show ?thesis
      by (simp add: handle_text_def sell_handler_def tx_change_same Let_def)
  next
    case d then show ?thesis
      using flow_text_transactions [of admin st u raw r]
      by (simp add: handle_text_def tx_change_same)
  next
    case e then show ?thesis
      by (simp add: handle_text_def done_tx_change)
  next
    case f then show ?thesis
      using post_approval_tx_change [of admin st u raw r]
      by (simp add: handle_text_def)
  next
    case g then show ?thesis
      by (simp add: handle_text_def broadcast_handler_def help_handler_def tx_change_same Let_def)
  qed
qed

lemma tx_change_user_seen:
  "tx_change admin (user_seen st u) u st' \<Longrightarrow> tx_change admin st u st'"
  by (simp add: tx_change_def user_seen_def)

lemma handle_update_tx_change: "tx_change admin st u (fst (handle_update admin st u))"
proof (cases "payload u")
  case (Text raw cmd)
  then show ?thesis
    using handle_text_tx_change [of admin "user_seen st u" u raw cmd]
    by (simp add: handle_update_def tx_change_user_seen)
next
  case (Photo ids)
  have "transactions (fst (photo_handler (user_seen st u) u ids)) = transactions st"
    by (simp add: photo_handler_def user_seen_def split: option.splits)
  with Photo show ?thesis
    by (simp add: handle_update_def tx_change_same)
next
  case (Callback act j)
  then show ?thesis
    using action_tx_change [of u act j admin "user_seen st u"]
    by (simp add: handle_update_def tx_change_user_seen)
next
  case Other
  then show ?thesis by (simp add: handle_update_def user_seen_def tx_change_same)
qed

lemma handle_update_distinct:
  assumes "distinct (map tx_id (transactions st))"
  shows "distinct (map tx_id (transactions (fst (handle_update admin st u))))"
proof -
  have fresh: "lastInsertRowid (transactions st) \<notin> set (map tx_id (transactions st))"
    using lastInsertRowid_fresh [of _ "transactions st"] by fastforce
  show ?thesis
    using handle_update_tx_change [of admin st u] assms fresh
    by (auto simp: tx_change_def)
qed

lemma status_step:
  assumes d: "distinct (map tx_id (transactions st))"
      and g: "\<not> redecides admin st u i"
  shows "valid_step (tx_status st i) (tx_status (fst (handle_update admin st u)) i)"
proof -
  let ?ts = "transactions st" and ?ts' = "transactions (fst (handle_update admin st u))"
  have same: "valid_step (status_of ?ts i) (status_of ?ts i)"
    by (cases "status_of ?ts i") auto
  from handle_update_tx_change [of admin st u]
  consider (same) "?ts' = ?ts"
    | (new) tx where "?ts' = ?ts @ [tx]" "tx_id tx = lastInsertRowid ?ts" "status tx = Pending"
    | (completed) la n where "latestApproved ?ts (sender_id (sent_by u)) = Some la"
        "?ts' = updateTxStatus (tx_id la) Completed n ?ts"
    | (decided) act j n where "payload u = Callback act j" "sender_id (sent_by u) = admin"
        "getTxById ?ts j \<noteq> None" "?ts' = updateTxStatus j (decision_status act) n ?ts"
    unfolding tx_change_def by blast
  then have "valid_step (status_of ?ts i) (status_of ?ts' i)"
  proof cases
    case same
    then show ?thesis using \<open>valid_step (status_of ?ts i) (status_of ?ts i)\<close> by simp
  next
    case new
    then show ?thesis
      by (cases "status_of ?ts i") (auto simp: status_of_snoc)
  next
    case completed
    from latestApproved_Some [OF completed(1)]
    have "status_of ?ts (tx_id la) = Some Approved"
      using status_of_distinct [OF d, of la] by simp
    then show ?thesis
      using completed(2) \<open>valid_step (status_of ?ts i) (status_of ?ts i)\<close>
      by (auto simp: status_of_update)
  next
    case decided
    show ?thesis
    proof (cases "i = j")
      case True
      from decided(3) obtain s where s: "status_of ?ts j = Some s"
        by (auto simp: status_of_def)
      with g decided(1,2) True have "s = Pending"
        by (auto simp: redecides_def tx_status_def)
      with s True decided(4) show ?thesis
        by (cases act) (simp_all add: status_of_update decision_status_def)
    next
      case False
      with decided(4) \<open>valid_step (status_of ?ts i) (status_of ?ts i)\<close> show ?thesis
        by (simp add: status_of_update)
    qed
  qed
  then show ?thesis by (simp add: tx_status_def)
qed

lemma history_hd: "hd (history admin st us i) = tx_status st i"
  by (cases us) simp_all

lemma history_nonempty: "history admin st us i \<noteq> []"
  by (cases us) simp_all

lemma history_valid:
  "distinct (map tx_id (transactions st)) \<Longrightarrow> decided_once admin st us i
   \<Longrightarrow> successively valid_step (history admin st us i)"
proof (induction us arbitrary: st)
  case Nil
  then show ?case by simp
next
  case (Cons u us)
  let ?st' = "fst (handle_update admin st u)"
  have d': "distinct (map tx_id (transactions ?st'))"
    using Cons.prems(1) by (rule handle_update_distinct)
  have ih: "successively valid_step (history admin ?st' us i)"
    using Cons.IH [OF d'] Cons.prems(2) by simp
  have st: "valid_step (tx_status st i) (tx_status ?st' i)"
    using Cons.prems by (intro status_step) simp_all
  obtain h hs where h: "history admin ?st' us i = h # hs"
    using history_nonempty [of admin ?st' us i] by (cases "history admin ?st' us i") auto
  with history_hd [of admin ?st' us i] have "h = tx_status ?st' i" by simp
  with h ih st show ?case by simp
qed

lemma terminal_kept:
  "distinct (map tx_id (transactions st)) \<Longrightarrow> decided_once admin st us i
   \<Longrightarrow> tx_status st i = Some Rejected \<or> tx_status st i = Some Completed
   \<Longrightarrow> tx_status (run admin st us) i = tx_status st i"
proof (induction us arbitrary: st)
  case Nil
  then show ?case by simp
next
  case (Cons u us)
  let ?st' = "fst (handle_update admin st u)"
  have d': "distinct (map tx_id (transactions ?st'))"
    using Cons.prems(1) by (rule handle_update_distinct)
  have st: "valid_step (tx_status st i) (tx_status ?st' i)"
    using Cons.prems by (intro status_step) simp_all
  with Cons.prems(3) have e: "tx_status ?st' i = tx_status st i"
    by (cases "tx_status ?st' i") auto
  with Cons.IH [OF d'] Cons.prems show ?case by simp
qed

subsection \<open>The steps of the sale flow\<close>

lemma hears_sell_not_account: "hears_sell raw \<Longrightarrow> \<not> hears_my_account raw"
  by (auto simp: hears_sell_def hears_my_account_def matches_ignoring_case_def js_def
      canonicalize_def)

lemma finish_not_hears:
  assumes "is_finish_command u"
  obtains raw where "payload u = Text raw (Some ''done'')"
    "\<not> hears_my_account raw" "\<not> hears_sell raw"
proof -
  from assms obtain raw
    where p: "payload u = Text raw (Some ''done'')" and t: "take 5 raw = js ''/done''"
    by (auto simp: is_finish_command_def split: payload.splits)
  from t have "take 1 raw = js ''/''" by (cases raw) (auto simp: js_def)
  then have "\<not> hears_my_account raw" "\<not> hears_sell raw" by (rule slash_not_hears)+
  with p show ?thesis by (rule that)
qed

lemma intent_step:
  assumes "payload u = Text raw cmd" "cmd \<noteq> Some ''start''" "hears_sell raw"
  shows "sessions (fst (handle_update admin st u)) =
           (sessions st)(session_key u \<mapsto>
              \<lparr>step = Choose_type,
               ftype = (if js_includes (js ''crypto'') (toLowerCase raw) then Crypto else Giftcard),
               f_amount = None, f_currency_or_card = None, f_proof = []\<rparr>)"
    and "transactions (fst (handle_update admin st u)) = transactions st"
  using assms hears_sell_not_account [OF assms(3)]
  by (simp_all add: handle_update_def handle_text_def sell_handler_def user_seen_def Let_def)

lemma flow_text_step:
  assumes "sessions st (session_key u) = Some fl"
      and "payload u = Text raw cmd" "cmd \<noteq> Some ''start''"
      and "\<not> hears_my_account raw" "\<not> hears_sell raw"
  shows "step fl = Choose_type \<Longrightarrow> sessions (fst (handle_update admin st u)) =
           (sessions st)(session_key u \<mapsto> fl\<lparr>f_amount := Some (js_trim raw), step := Currency\<rparr>)"
    and "step fl = Currency \<Longrightarrow> sessions (fst (handle_update admin st u)) =
           (sessions st)(session_key u \<mapsto>
              fl\<lparr>f_currency_or_card := Some (js_trim raw), step := Await_proof\<rparr>)"
    and "step fl = Choose_type \<or> step fl = Currency \<Longrightarrow>
           transactions (fst (handle_update admin st u)) = transactions st"
  using assms
  by (auto simp: handle_update_def handle_text_def flow_text_handler_def user_seen_def Let_def)

lemma photo_step:
  assumes "sessions st (session_key u) = Some fl" "step fl = Await_proof" "is_photo u"
  shows "sessions (fst (handle_update admin st u)) =
           (sessions st)(session_key u \<mapsto> fl\<lparr>f_proof := f_proof fl @ attachments_of u\<rparr>)"
    and "transactions (fst (handle_update admin st u)) = transactions st"
  using assms
  by (auto simp: handle_update_def photo_handler_def user_seen_def is_photo_def attachments_of_def
      split: payload.splits)

lemma photos_run:
  assumes "sessions st k = Some fl" "step fl = Await_proof"
      and "list_all is_photo ps" "list_all (\<lambda>u. session_key u = k) ps"
  shows "sessions (run admin st ps) k =
           Some (fl\<lparr>f_proof := f_proof fl @ concat (map attachments_of ps)\<rparr>)
       \<and> transactions (run admin st ps) = transactions st"
  using assms
proof (induction ps arbitrary: st fl)
  case Nil
  then show ?case by simp
next
  case (Cons p ps)
  let ?st' = "fst (handle_update admin st p)"
  let ?fl' = "fl\<lparr>f_proof := f_proof fl @ attachments_of p\<rparr>"
  have k: "session_key p = k" and m: "is_photo p" using Cons.prems by simp_all
  have s: "sessions ?st' k = Some ?fl'" and t: "transactions ?st' = transactions st"
    using photo_step [of st p fl admin] Cons.prems(1,2) k m by simp_all
  have "sessions (run admin ?st' ps) k =
          Some (?fl'\<lparr>f_proof := f_proof ?fl' @ concat (map attachments_of ps)\<rparr>)
       \<and> transactions (run admin ?st' ps) = transactions ?st'"
    using Cons.prems by (intro Cons.IH [OF s]) simp_all
  with t show ?case by simp
qed

lemma done_step:
  assumes "is_finish_command u"
      and "sessions st (session_key u) = Some fl" "step fl = Await_proof" "f_proof fl \<noteq> []"
  shows "transactions (fst (handle_update admin st u)) = transactions st @
           [\<lparr>tx_id = lastInsertRowid (transactions st), user_id = sender_id (sent_by u),
             tx_kind = ftype fl, amount = f_amount fl, currency_or_card = f_currency_or_card fl,
             status = Pending, proof_files = f_proof fl, created_at = clock u,
             admin_note = None\<rparr>]"
    and "sessions (fst (handle_update admin st u)) =
           (if accepts u (confirmation u) then (sessions st)(session_key u := None)
            else sessions st)"
proof -
  from assms(1) obtain raw where p: "payload u = Text raw (Some ''done'')"
    and h: "\<not> hears_my_account raw" "\<not> hears_sell raw"
    by (rule finish_not_hears)
  show "transactions (fst (handle_update admin st u)) = transactions st @
           [\<lparr>tx_id = lastInsertRowid (transactions st), user_id = sender_id (sent_by u),
             tx_kind = ftype fl, amount = f_amount fl, currency_or_card = f_currency_or_card fl,
             status = Pending, proof_files = f_proof fl, created_at = clock u,
             admin_note = None\<rparr>]"
    using assms(2-4) p h
    by (simp add: handle_update_def handle_text_def flow_text_handler_def done_handler_def
        user_seen_def Let_def)
  show "sessions (fst (handle_update admin st u)) =
           (if accepts u (confirmation u) then (sessions st)(session_key u := None)
            else sessions st)"
    using assms(2-4) p h
    by (simp add: handle_update_def handle_text_def flow_text_handler_def done_handler_def
        user_seen_def confirmation_def Let_def)
qed

lemma photo_attachments:
  "ps \<noteq> [] \<Longrightarrow> list_all is_photo ps \<Longrightarrow> concat (map attachments_of ps) \<noteq> []"
  by (cases ps) (auto simp: is_photo_def attachments_of_def split: payload.splits)

lemma rejected_sale_eval:
  "transactions rejected_sale =
     [first_sale\<lparr>status := Rejected, admin_note := Some (Rejected_by_admin 1 0)\<rparr>]"
  unfolding rejected_sale_def run_append pending_sale_def [symmetric]
  by (simp add: pending_sale_eval scenario_defs handler_defs db_defs Let_def)

lemma settled_sale_eval:
  "transactions settled_sale =
     [first_sale\<lparr>status := Completed, admin_note := Some (User_provided_details 0)\<rparr>]"
  "users settled_sale =
     [alice_row (Some [(js ''a'', js ''1''), (js ''b'', js ''2'')]), boss_row]"
  "sessions settled_sale (7, 7) = None"
  unfolding settled_sale_def run_append pending_sale_def [symmetric]
  by (simp_all add: pending_sale_eval scenario_defs string_defs handler_defs db_defs parse_defs
      Let_def)

lemma approved_again_eval:
  "transactions approved_again =
     [first_sale\<lparr>status := Completed, admin_note := Some (User_provided_details 0)\<rparr>,
      second_sale]"
  "users approved_again =
     [alice_row (Some [(js ''a'', js ''1''), (js ''b'', js ''2'')]), boss_row]"
  "sessions approved_again (7, 7) = None"
  unfolding approved_again_def
  by (simp_all add: sale_events_def settled_sale_eval scenario_defs string_defs handler_defs
      db_defs parse_defs Let_def)

lemma mid_flow_eval:
  "transactions mid_flow = transactions approved_again"
  "users mid_flow = users approved_again"
  "sessions mid_flow (7, 7) = Some new_flow"
  unfolding mid_flow_def
  by (simp_all add: approved_again_eval scenario_defs string_defs handler_defs db_defs Let_def)

lemma approved_again_latest:
  "latestApproved (transactions approved_again) 7 = Some second_sale"
  "saved_details (getUser (users approved_again) 7) =
     Some [(js ''a'', js ''1''), (js ''b'', js ''2'')]"
  by (simp_all add: approved_again_eval db_defs scenario_defs)

lemma end_to_end:
  "snd (handle_update 1 pending_sale (presses boss Approve 1)) =
     [Edit_message_text (Tx_approved_edit 1),
      Send_message 7 (Approved_send_details 1),
      Send_message 1
        (Approved_summary 1 7 (Some (js ''50'')) (Some (js ''BTC'')) None [''large'']),
      Answer_cb_query Approved_ack False]"
  "tx_status (fst (handle_update 1 pending_sale (presses boss Approve 1))) 1 = Some Approved"
  "tx_status (run 1 pending_sale [presses boss Approve 1,
      says alice ''account_name: John\<newline>account_number: 123'']) 1 = Some Completed"
  "saved_details (getUser (users (run 1 pending_sale [presses boss Approve 1,
      says alice ''account_name: John\<newline>account_number: 123''])) 7) =
     Some [(js ''account_name'', js ''John''), (js ''account_number'', js ''123'')]"
  by (simp_all add: pending_sale_eval tx_status_def status_of_def scenario_defs string_defs
      handler_defs db_defs parse_defs Let_def)

lemma refused_confirmation:
  "transactions (fst (handle_update 1 (run 1 init (butlast sale_events))
       (unanswered (commands alice ''done'')))) = [first_sale]"
  "sessions (fst (handle_update 1 (run 1 init (butlast sale_events))
       (unanswered (commands alice ''done'')))) (7, 7) =
     Some (new_flow\<lparr>f_amount := Some (js ''50''), f_currency_or_card := Some (js ''BTC''),
                     step := Await_proof,
                     f_proof := [\<lparr>file_id = ''large'', file_type = ''photo'', date = 0\<rparr>]\<rparr>)"
  "snd (handle_update 1 (run 1 init (butlast sale_events))
       (unanswered (commands alice ''done''))) =
     [Send_photo_buttons 1 ''large''
        (New_sale Crypto 1 alice (Some (js ''50'')) (Some (js ''BTC''))) 1,
      Send_message 7 Submission_pending]"
  by (simp_all add: sale_events_def scenario_defs string_defs handler_defs lastInsertRowid_def
      Let_def)

lemma index_keys_first:
  "parse_account_details (js ''b: 1\<newline>10: x\<newline>2: y\<newline>b: 3'') =
     [(js ''2'', js ''y''), (js ''10'', js ''x''), (js ''b'', js ''3'')]"
  by (simp add: string_defs parse_defs)

subsection \<open>Strings, the confirmation token and the stored details\<close>

lemma upper_units_nonempty: "upper_units c \<noteq> []"
  by (simp add: upper_units_def)

lemma upper_first_C: "hd (upper_units c) = 0x43 \<Longrightarrow> \<not> js_is_space c"
  by (auto simp: upper_units_def js_is_space_def split: if_splits)

lemma upper_last_M: "last (upper_units c) = 0x4D \<Longrightarrow> \<not> js_is_space c"
  by (auto simp: upper_units_def js_is_space_def split: if_splits)

lemma length_toUpperCase: "length raw \<le> length (toUpperCase raw)"
proof (induction raw)
  case Nil
  then show ?case by (simp add: toUpperCase_def)
next
  case (Cons c raw)
  have "1 \<le> length (upper_units c)"
    using upper_units_nonempty [of c] by (cases "upper_units c") simp_all
  with Cons show ?case by (simp add: toUpperCase_def)
qed

lemma js_trim_id:
  assumes "raw \<noteq> []" "\<not> js_is_space (hd raw)" "\<not> js_is_space (last raw)"
  shows "js_trim raw = raw"
proof -
  from assms(1,2) have a: "dropWhile js_is_space raw = raw" by (cases raw) auto
  from assms(1,3) have "dropWhile js_is_space (rev raw) = rev raw"
    by (cases "rev raw") (auto simp: hd_rev [symmetric])
  with a show ?thesis by (simp add: js_trim_def)
qed

lemma confirm_trim:
  assumes "toUpperCase raw = js ''CONFIRM''"
  shows "js_trim raw = raw"
proof -
  from assms have n: "raw \<noteq> []" by (auto simp: toUpperCase_def js_def)
  then obtain c cs where r: "raw = c # cs" by (cases raw) auto
  have "hd (toUpperCase raw) = hd (upper_units (hd raw))"
    using r upper_units_nonempty [of c] by (simp add: toUpperCase_def)
  then have "hd (upper_units (hd raw)) = 0x43" unfolding assms by (simp add: js_def)
  then have h: "\<not> js_is_space (hd raw)" by (rule upper_first_C)
  from n obtain bs b where s: "raw = bs @ [b]" by (cases raw rule: rev_cases) auto
  have "last (toUpperCase raw) = last (upper_units (last raw))"
    using s upper_units_nonempty [of b] by (simp add: toUpperCase_def)
  then have "last (upper_units (last raw)) = 0x4D" unfolding assms by (simp add: js_def)
  then have "\<not> js_is_space (last raw)" by (rule upper_last_M)
  with n h show ?thesis by (intro js_trim_id)
qed

lemma matches_length:
  "matches_ignoring_case pattern raw \<Longrightarrow> length raw = length pattern"
proof -
  assume "matches_ignoring_case pattern raw"
  then have "length (map canonicalize raw) = length (map canonicalize (js pattern))"
    by (simp add: matches_ignoring_case_def)
  then show ?thesis by (simp add: js_def)
qed

lemma hears_length:
  "hears_my_account raw \<Longrightarrow> length raw = 10"
  "hears_sell raw \<Longrightarrow> length raw = 11 \<or> length raw = 13"
  using matches_length [of "''My Account''" raw] matches_length [of "''Sell Crypto''" raw]
    matches_length [of "''Sell Giftcard''" raw]
  by (auto simp: hears_my_account_def hears_sell_def)

lemma confirm_not_hears:
  assumes "toUpperCase raw = js ''CONFIRM''"
  shows "\<not> hears_my_account raw" "\<not> hears_sell raw"
proof -
  have "length raw \<le> length (js ''CONFIRM'')"
    using length_toUpperCase [of raw] assms by simp
  then have l: "length raw \<le> 7" by (simp add: js_def)
  show "\<not> hears_my_account raw" using l hears_length(1) [of raw] by auto
  show "\<not> hears_sell raw" using l hears_length(2) [of raw] by auto
qed

lemma flow_gives_way_next:
  "flow_gives_way st u \<Longrightarrow> flow_text_handler admin (user_seen st u) u raw = None"
  by (auto simp: flow_gives_way_def flow_text_handler_def user_seen_def Let_def split: option.splits)

lemma getUser_known: "getUser us i = Some r \<Longrightarrow> i \<in> set (map u_id us)"
  by (induction us) (auto simp: getUser_def split: if_splits)

lemma saved_known: "saved_details (getUser us i) = Some d \<Longrightarrow> i \<in> set (map u_id us)"
  by (auto simp: saved_details_def dest: getUser_known split: option.splits)

lemma status_of_completed:
  "t \<in> set ts \<Longrightarrow> status_of (updateTxStatus (tx_id t) s n ts) (tx_id t) = Some s"
  by (induction ts) (auto simp: status_of_def getTxById_def updateTxStatus_def)

lemma js_includes_char: "js_includes [c] s \<longleftrightarrow> c \<in> set s"
  by (induction s) auto

lemma dropWhile_keeps: "x \<in> set xs \<Longrightarrow> \<not> P x \<Longrightarrow> x \<in> set (dropWhile P xs)"
  by (induction xs) auto

lemma js_trim_keeps: "c \<in> set s \<Longrightarrow> \<not> js_is_space c \<Longrightarrow> c \<in> set (js_trim s)"
  by (simp add: js_trim_def dropWhile_keeps)

lemma find_upsert:
  "find (\<lambda>u. u_id u = i) (upsertAccount i d us) =
     map_option (\<lambda>u. u\<lparr>account_details := Some d\<rparr>) (find (\<lambda>u. u_id u = i) us)"
  by (induction us) (auto simp: upsertAccount_def)

lemma find_known: "i \<in> set (map f xs) \<Longrightarrow> find (\<lambda>x. f x = i) xs \<noteq> None"
  by (induction xs) auto

lemma insertUser_known: "sender_id f \<in> set (map u_id (insertUser f t us))"
  by (simp add: insertUser_def)

lemma saved_after_upsert:
  "saved_details (getUser (upsertAccount (sender_id f) d (insertUser f t us)) (sender_id f)) = Some d"
  using find_known [OF insertUser_known, of f t us]
  by (auto simp: saved_details_def getUser_def find_upsert)


lemma colon_not_space: "\<not> js_is_space 0x3A"
  by (simp add: js_is_space_def)

lemma colon_facts:
  assumes "js_includes (js '':'') raw"
  shows "js_includes (js '':'') (js_trim raw)" "toUpperCase (js_trim raw) \<noteq> js ''CONFIRM''"
    "\<not> hears_my_account raw" "\<not> hears_sell raw"
proof -
  have j: "js '':'' = [0x3A]" by (simp add: js_def)
  have c: "0x3A \<in> set raw" using assms by (simp add: j js_includes_char)
  then have t: "0x3A \<in> set (js_trim raw)"
    by (rule js_trim_keeps) (rule colon_not_space)
  then show "js_includes (js '':'') (js_trim raw)" by (simp add: j js_includes_char)
  have u: "upper_units 0x3A = [0x3A]" by (simp add: upper_units_def)
  from t have "set (upper_units 0x3A) \<subseteq> set (toUpperCase (js_trim raw))"
    unfolding toUpperCase_def by auto
  with u have "0x3A \<in> set (toUpperCase (js_trim raw))" by simp
  then show "toUpperCase (js_trim raw) \<noteq> js ''CONFIRM''" by (auto simp: js_def)
  have k: "canonicalize 0x3A = 0x3A" by (simp add: canonicalize_def)
  from c have "canonicalize 0x3A \<in> set (map canonicalize raw)" by simp
  with k have m: "0x3A \<in> set (map canonicalize raw)" by simp
  show "\<not> hears_my_account raw"
    using m by (auto simp: hears_my_account_def matches_ignoring_case_def js_def canonicalize_def)
  show "\<not> hears_sell raw"
    using m by (auto simp: hears_sell_def matches_ignoring_case_def js_def canonicalize_def)
qed

subsection \<open>The parser and the users table\<close>

lemma set_insert_index: "set (insert_index n k v obj) = insert (k, v) (set obj)"
  by (induction obj) (auto split: option.splits)

lemma set_property_keys:
  "fst ` set (set_property k v obj) \<subseteq> insert k (fst ` set obj)"
  by (auto simp: set_property_def dom_update set_insert_index split: option.splits)

lemma set_property_no_empty:
  assumes "[] \<notin> fst ` set obj" "k \<noteq> []"
  shows "[] \<notin> fst ` set (set_property k v obj)"
proof
  assume "[] \<in> fst ` set (set_property k v obj)"
  with set_property_keys [of k v obj] have "[] \<in> insert k (fst ` set obj)" by (rule subsetD)
  with assms show False by simp
qed

lemma parse_line_keys:
  assumes "[] \<notin> fst ` set obj"
  shows "[] \<notin> fst ` set (parse_line obj line)"
proof (cases "indexOf 0x3A line")
  case None
  then have "parse_line obj line = obj" by (simp add: parse_line_def)
  with assms show ?thesis by simp
next
  case (Some idx)
  show ?thesis
  proof (cases "0 < idx \<and> js_trim (take idx line) \<noteq> []")
    case True
    then have e: "parse_line obj line =
        set_property (js_trim (take idx line)) (js_trim (drop (idx + 1) line)) obj"
      using Some by (simp add: parse_line_def Let_def)
    show ?thesis
      unfolding e using assms True by (intro set_property_no_empty) simp_all
  next
    case False
    then have "parse_line obj line = obj" using Some by (auto simp: parse_line_def Let_def)
    with assms show ?thesis by simp
  qed
qed

lemma foldl_parse_line_keys:
  "[] \<notin> fst ` set obj \<Longrightarrow> [] \<notin> fst ` set (foldl parse_line obj ls)"
  by (induction ls arbitrary: obj) (simp_all add: parse_line_keys)

lemma parse_keys: "[] \<notin> fst ` set (parse_account_details raw)"
  unfolding parse_account_details_def by (rule foldl_parse_line_keys) simp

lemma parsed_details_ok:
  assumes "parse_account_details raw \<noteq> []"
  shows "details_ok (Some (parse_account_details raw))"
proof -
  from assms obtain k v ps where p: "parse_account_details raw = (k, v) # ps"
    by (cases "parse_account_details raw") auto
  then have "k \<in> fst ` set (parse_account_details raw)" by simp
  with parse_keys [of raw] have "k \<noteq> []" by metis
  with p show ?thesis by (simp add: details_ok_def)
qed

lemma users_change_same: "users st' = users st \<Longrightarrow> users_change st u st'"
  by (simp add: users_change_def)

lemma flow_text_users:
  "flow_text_handler admin st u raw = Some r \<Longrightarrow> users (fst r) = users st"
  by (auto simp: flow_text_handler_def Let_def split: option.splits if_splits)

lemma done_users: "users (fst (done_handler admin st u)) = users st"
  by (auto simp: done_handler_def Let_def split: option.splits)

lemma post_approval_users_change:
  "post_approval_text_handler admin st u raw = Some r \<Longrightarrow> users_change st u (fst r)"
  unfolding post_approval_text_handler_def Let_def users_change_def
  by (cases "latestApproved (transactions st) (sender_id (sent_by u))")
     (auto split: if_splits)

lemma action_users: "users (fst (action_handler admin st u act j)) = users st"
  by (cases act) (auto simp: action_handler_def Let_def split: option.splits)

lemma photo_users: "users (fst (photo_handler st u ids)) = users st"
  by (simp add: photo_handler_def split: option.splits)

lemma handle_text_users_change: "users_change st u (fst (handle_text admin st u raw cmd))"
proof -
  consider (a) "cmd = Some ''start''"
    | (b) "cmd \<noteq> Some ''start''" "hears_my_account raw"
    | (c) "cmd \<noteq> Some ''start''" "\<not> hears_my_account raw" "hears_sell raw"
    | (d) r where "cmd \<noteq> Some ''start''" "\<not> hears_my_account raw" "\<not> hears_sell raw"
        "flow_text_handler admin st u raw = Some r"
    | (e) "cmd \<noteq> Some ''start''" "\<not> hears_my_account raw" "\<not> hears_sell raw"
        "flow_text_handler admin st u raw = None" "cmd = Some ''done''"
    | (f) r where "cmd \<noteq> Some ''start''" "\<not> hears_my_account raw" "\<not> hears_sell raw"
        "flow_text_handler admin st u raw = None" "cmd \<noteq> Some ''done''"
        "post_approval_text_handler admin st u raw = Some r"
    | (g) "cmd \<noteq> Some ''start''" "\<not> hears_my_account raw" "\<not> hears_sell raw"
        "flow_text_handler admin st u raw = None" "cmd \<noteq> Some ''done''"
        "post_approval_text_handler admin st u raw = None"
    by (cases "flow_text_handler admin st u raw";
        cases "post_approval_text_handler admin st u raw") auto
  then show ?thesis
  proof cases
    case a then show ?thesis
      by (simp add: handle_text_def start_handler_def users_change_same)
  next
    case b then show ?thesis
      by (simp add: handle_text_def my_account_handler_def users_change_same split: option.splits)
  next
    case c then show ?thesis
      by (simp add: handle_text_def sell_handler_def users_change_same Let_def)
  next
    case d then show ?thesis
      using flow_text_users [of admin st u raw r]
      by (simp add: handle_text_def users_change_same)
  next
    case e then show ?thesis
      by (simp add: handle_text_def done_users users_change_same)
  next
    case f then show ?thesis
      using post_approval_users_change [of admin st u raw r]
      by (simp add: handle_text_def)
  next
    case g then show ?thesis
      by (simp add: handle_text_def broadcast_handler_def help_handler_def users_change_same
          Let_def)
  qed
qed

lemma handle_update_users_change:
  "users_change (user_seen st u) u (fst (handle_update admin st u))"
proof (cases "payload u")
  case (Text raw cmd)
  then show ?thesis
    using handle_text_users_change [of "user_seen st u" u admin raw cmd]
    by (simp add: handle_update_def)
next
  case (Photo ids)
  then show ?thesis by (simp add: handle_update_def photo_users users_change_same)
next
  case (Callback act j)
  then show ?thesis by (simp add: handle_update_def action_users users_change_same)
next
  case Other
  then show ?thesis by (simp add: handle_update_def users_change_same)
qed

lemma written_insertUser:
  "list_all (\<lambda>r. r \<in> set us \<or> details_ok (account_details r)) (insertUser f t us)"
  by (simp add: insertUser_def list_all_iff details_ok_def)

lemma written_upsert:
  assumes "list_all (\<lambda>r. r \<in> set us \<or> details_ok (account_details r)) us'" "details_ok (Some d)"
  shows "list_all (\<lambda>r. r \<in> set us \<or> details_ok (account_details r)) (upsertAccount i d us')"
  using assms by (auto simp: upsertAccount_def list_all_iff)

lemma handle_update_written: "written_ok st (fst (handle_update admin st u))"
proof -
  let ?us = "insertUser (sent_by u) (clock u) (users st)"
  from handle_update_users_change [of st u admin]
  consider "users (fst (handle_update admin st u)) = ?us"
    | raw where "parse_account_details (js_trim raw) \<noteq> []"
        "users (fst (handle_update admin st u)) =
           upsertAccount (sender_id (sent_by u)) (parse_account_details (js_trim raw)) ?us"
    by (auto simp: users_change_def user_seen_def)
  then show ?thesis
  proof cases
    case 1
    then show ?thesis by (simp add: written_ok_def written_insertUser)
  next
    case 2
    show ?thesis
      unfolding written_ok_def 2(2)
      by (intro written_upsert written_insertUser parsed_details_ok 2(1))
  qed
qed

lemma handle_update_users_ok:
  assumes "users_ok (users st)"
  shows "users_ok (users (fst (handle_update admin st u)))"
  using handle_update_written [of st admin u] assms
  by (auto simp: written_ok_def users_ok_def list_all_iff)

lemma run_users_ok: "users_ok (users st) \<Longrightarrow> users_ok (users (run admin st us))"
  by (induction us arbitrary: st) (simp_all add: handle_update_users_ok)

lemma details_ok_agree:
  "details_ok saved \<Longrightarrow> approval_has_saved saved = reconciler_has_saved saved"
  by (cases saved) (auto simp: details_ok_def approval_has_saved_def reconciler_has_saved_def)

lemma users_ok_agree: "users_ok us \<Longrightarrow> checks_agree us"
  by (simp add: users_ok_def checks_agree_def list_all_iff details_ok_agree)


lemma map_of_insert_index:
  "k \<notin> fst ` set obj \<Longrightarrow> map_of (insert_index n k v obj) = (map_of obj)(k \<mapsto> v)"
proof (induction obj)
  case Nil
  then show ?case by simp
next
  case (Cons p ps)
  then have "fst p \<noteq> k" and "k \<notin> fst ` set ps" by auto
  with Cons.IH show ?case
    by (cases p) (auto simp: fun_upd_twist split: option.splits)
qed

lemma map_of_snoc: "k \<notin> fst ` set obj \<Longrightarrow> map_of (obj @ [(k, v)]) = (map_of obj)(k \<mapsto> v)"
proof (induction obj)
  case Nil
  then show ?case by simp
next
  case (Cons p ps)
  then have "fst p \<noteq> k" and "k \<notin> fst ` set ps" by auto
  with Cons.IH show ?case by (cases p) (auto simp: fun_upd_twist)
qed

lemma map_of_set_property:
  "k \<noteq> js ''__proto__'' \<Longrightarrow> map_of (set_property k v obj) = (map_of obj)(k \<mapsto> v)"
  by (auto simp: set_property_def update_conv' map_of_insert_index map_of_snoc
      simp del: map_of_append split: option.splits)

lemma parse_line_spec:
  "parse_line obj (js_trim line) =
     (case spec_pair line of None \<Rightarrow> obj | Some (k, v) \<Rightarrow> set_property k v obj)"
proof (cases "0x3A \<in> set (js_trim line)")
  case False
  then show ?thesis
    by (simp add: parse_line_def indexOf_def spec_pair_def spec_split_first_def)
next
  case True
  let ?t = "js_trim line"
  let ?n = "length (takeWhile (\<lambda>c. c \<noteq> 0x3A) ?t)"
  have a: "take ?n ?t = takeWhile (\<lambda>c. c \<noteq> 0x3A) ?t"
    by (rule takeWhile_eq_take [symmetric])
  have b: "drop (?n + 1) ?t = tl (dropWhile (\<lambda>c. c \<noteq> 0x3A) ?t)"
    by (simp add: dropWhile_eq_drop drop_Suc tl_drop)
  have c: "?n = 0 \<Longrightarrow> js_trim (takeWhile (\<lambda>c. c \<noteq> 0x3A) ?t) = []"
    by (simp add: js_trim_def)
  show ?thesis
    using True a b c
    by (auto simp: parse_line_def indexOf_def spec_pair_def spec_split_first_def Let_def)
qed

lemma spec_pair_blank: "js_trim line = [] \<Longrightarrow> spec_pair line = None"
  by (simp add: spec_pair_def spec_split_first_def)

lemma foldl_parse_spec:
  assumes "js ''__proto__'' \<notin> fst ` set (List.map_filter spec_pair ls)"
      and "map_of obj = map_of obj'"
  shows "map_of (foldl parse_line obj (filter (\<lambda>l. l \<noteq> []) (map js_trim ls))) =
         map_of (foldl (\<lambda>obj (k, v). AList.update k v obj) obj' (List.map_filter spec_pair ls))"
  using assms
proof (induction ls arbitrary: obj obj')
  case Nil
  then show ?case by (simp add: List.map_filter_simps)
next
  case (Cons l ls)
  show ?case
  proof (cases "spec_pair l")
    case None
    then have "parse_line obj (js_trim l) = obj" by (simp add: parse_line_spec)
    with None Cons show ?thesis by (simp add: List.map_filter_simps)
  next
    case (Some kv)
    obtain k v where kv: "kv = (k, v)" by (cases kv)
    from Some kv Cons.prems(1) have k: "k \<noteq> js ''__proto__''"
      and r: "js ''__proto__'' \<notin> fst ` set (List.map_filter spec_pair ls)"
      by (auto simp: List.map_filter_simps)
    from Some kv have ne: "js_trim l \<noteq> []" using spec_pair_blank [of l] by auto
    have p: "parse_line obj (js_trim l) = set_property k v obj"
      using Some kv by (simp add: parse_line_spec)
    have m: "map_of (set_property k v obj) = map_of (AList.update k v obj')"
      using k Cons.prems(2) by (simp add: map_of_set_property update_conv')
    show ?thesis
      using Cons.IH [OF r m] Some kv ne p by (simp add: List.map_filter_simps)
  qed
qed

lemma parse_refines_spec:
  "js ''__proto__'' \<notin> fst ` set (spec_pairs raw) \<Longrightarrow>
     map_of (parse_account_details raw) = map_of (spec_parse raw)"
  unfolding parse_account_details_def spec_parse_def spec_pairs_def
  by (rule foldl_parse_spec) simp_all

lemma parse_example:
  "parse_account_details (js_trim (js ''   :   \<newline>valid: 1'')) = [(js ''valid'', js ''1'')]"
  by (simp add: string_defs parse_defs)

lemma colon_not_confirm:
  assumes "js_includes (js '':'') t"
  shows "toUpperCase t \<noteq> js ''CONFIRM''"
proof -
  have "0x3A \<in> set t" using assms by (simp add: js_def js_includes_char)
  then have "set (upper_units 0x3A) \<subseteq> set (toUpperCase t)"
    unfolding toUpperCase_def by auto
  then have "0x3A \<in> set (toUpperCase t)" by (simp add: upper_units_def)
  then show ?thesis by (auto simp: js_def)
qed

lemma zero_pairs_reply:
  assumes "latestApproved (transactions st) (sender_id (sent_by u)) = Some la"
      and "js_includes (js '':'') (js_trim raw)"
      and "parse_account_details (js_trim raw) = []"
  shows "post_approval_text_handler admin st u raw =
           Some (st, [Send_message (chat u) Could_not_parse])"
  using assms colon_not_confirm [OF assms(2)]
  by (simp add: post_approval_text_handler_def Let_def)

subsection \<open>White space beyond ASCII\<close>

lemma no_break_space_trimmed:
  "toUpperCase (js_trim (0xA0 # js ''CONFIRM'')) = js ''CONFIRM''"
  "tx_status (fst (handle_update 1 approved_again (utters alice (0xA0 # js ''CONFIRM'')))) 2 =
     Some Completed"
  "parse_account_details (js_trim (0xA0 # js '': x'')) = []"
  "snd (handle_update 1 approved_again (utters alice (0xA0 # js '': x''))) =
     [Send_message 7 Could_not_parse]"
  "tx_status (fst (handle_update 1 approved_again (utters alice (0xA0 # js '': x'')))) 2 =
     Some Approved"
  "parse_account_details (js_trim (js ''a:'' @ 0xA0 # js ''1'')) = [(js ''a'', js ''1'')]"
  by (simp_all add: approved_again_eval tx_status_def status_of_def scenario_defs string_defs
      handler_defs db_defs parse_defs Let_def)

section \<open>The finish command without evidence\<close>

text \<open>
  C4. For a user whose flow is in the awaiting-proof step with no attachment, the finish
  command creates no transaction, leaves every flow as it was, and the user is told to
  upload at least one proof image.
\<close>

theorem done_without_proof:
  assumes "is_finish_command u"
      and "sessions st (session_key u) = Some fl" "step fl = Await_proof" "f_proof fl = []"
  shows "transactions (fst (handle_update admin st u)) = transactions st
       \<and> sessions (fst (handle_update admin st u)) = sessions st
       \<and> snd (handle_update admin st u) = [Send_message (chat u) Upload_at_least_one]"
proof -
  from assms(1) obtain raw where p: "payload u = Text raw (Some ''done'')"
    and h: "\<not> hears_my_account raw" "\<not> hears_sell raw"
    by (rule finish_not_hears)
  show ?thesis
    using assms(2-4) p h
    by (simp add: handle_update_def handle_text_def flow_text_handler_def done_handler_def
        user_seen_def Let_def)
qed

theorem done_without_proof_witness:
  "is_finish_command (commands alice ''done'')
   \<and> sessions awaiting_proof_empty (session_key (commands alice ''done'')) =
       Some \<lparr>step = Await_proof, ftype = Crypto, f_amount = Some (js ''50''),
             f_currency_or_card = Some (js ''BTC''), f_proof = []\<rparr>
   \<and> transactions (fst (handle_update 1 awaiting_proof_empty (commands alice ''done'')))
       = transactions awaiting_proof_empty
   \<and> sessions (fst (handle_update 1 awaiting_proof_empty (commands alice ''done'')))
       = sessions awaiting_proof_empty
   \<and> snd (handle_update 1 awaiting_proof_empty (commands alice ''done''))
       = [Send_message 7 Upload_at_least_one]"
proof -
  have a: "is_finish_command (commands alice ''done'')"
    by (simp add: is_finish_command_def commands_def js_def)
  have k: "session_key (commands alice ''done'') = (7, 7)"
    by (simp add: session_key_def commands_def alice_def)
  have c: "chat (commands alice ''done'') = 7"
    by (simp add: commands_def alice_def)
  have f: "sessions awaiting_proof_empty (session_key (commands alice ''done'')) =
       Some \<lparr>step = Await_proof, ftype = Crypto, f_amount = Some (js ''50''),
             f_currency_or_card = Some (js ''BTC''), f_proof = []\<rparr>"
    using awaiting_proof_empty_flow k by (simp add: new_flow_def)
  show ?thesis
    using done_without_proof [OF a f, of 1] a f c by simp
qed

section \<open>The amount step\<close>

text \<open>
  C9, as stated, fails. With the flow in the awaiting-amount step, the text
  \<^verbatim>\<open>My Account\<close> is answered by the account view, registered before the flow handler,
  and the flow stays where it was; and the text \<^verbatim>\<open> 50\<close> is stored as \<^verbatim>\<open>50\<close>, trimmed
  rather than verbatim.
\<close>

theorem amount_not_verbatim_counterexample:
  "sessions (fst (handle_update 1 awaiting_amount (says alice ''My Account''))) (7, 7) =
     Some new_flow
   \<and> sessions (fst (handle_update 1 awaiting_amount (says alice '' 50''))) (7, 7) =
     Some (new_flow\<lparr>f_amount := Some (js ''50''), step := Currency\<rparr>)"
  by (simp add: awaiting_amount_def scenario_defs string_defs handler_defs getUser_def
      saved_details_def Let_def)

text \<open>
  C9, amended. With the flow in the awaiting-amount step, every text message that no
  earlier handler claims (it is not the start command and is neither \<^verbatim>\<open>My Account\<close>
  nor \<^verbatim>\<open>Sell Crypto\<close> nor \<^verbatim>\<open>Sell Giftcard\<close>, compared without case) is stored as the
  flow's amount, stripped of the white space and line terminators at its two ends as
  \<^verbatim>\<open>String.prototype.trim\<close> strips them and otherwise unvalidated; the flow advances to
  the awaiting-counterparty step, and the user is asked for the counterparty.
\<close>

theorem amount_step:
  assumes "sessions st (session_key u) = Some fl" "step fl = Choose_type"
      and "payload u = Text raw cmd" "cmd \<noteq> Some ''start''"
      and "\<not> hears_my_account raw" "\<not> hears_sell raw"
  shows "sessions (fst (handle_update admin st u)) =
           (sessions st)(session_key u \<mapsto> fl\<lparr>f_amount := Some (js_trim raw), step := Currency\<rparr>)
       \<and> transactions (fst (handle_update admin st u)) = transactions st
       \<and> snd (handle_update admin st u) =
           [Send_message (chat u) (if ftype fl = Crypto then Which_crypto else Which_giftcard)]"
  using assms
  by (simp add: handle_update_def handle_text_def flow_text_handler_def user_seen_def Let_def)

text \<open>The witness: a no-break space, \<^verbatim>\<open>$50\<close> and a space give the amount \<^verbatim>\<open>$50\<close>.\<close>

theorem amount_step_witness:
  "sessions awaiting_amount (session_key (utters alice (0xA0 # js ''$50 ''))) = Some new_flow
   \<and> step new_flow = Choose_type
   \<and> payload (utters alice (0xA0 # js ''$50 '')) = Text (0xA0 # js ''$50 '') None
   \<and> \<not> hears_my_account (0xA0 # js ''$50 '') \<and> \<not> hears_sell (0xA0 # js ''$50 '')
   \<and> sessions (fst (handle_update 1 awaiting_amount (utters alice (0xA0 # js ''$50 '')))) (7, 7) =
       Some (new_flow\<lparr>f_amount := Some (js ''$50''), step := Currency\<rparr>)
   \<and> snd (handle_update 1 awaiting_amount (utters alice (0xA0 # js ''$50 ''))) =
       [Send_message 7 Which_crypto]"
proof -
  let ?u = "utters alice (0xA0 # js ''$50 '')"
  have k: "session_key ?u = (7, 7)"
    by (simp add: session_key_def utters_def alice_def)
  have p: "payload ?u = Text (0xA0 # js ''$50 '') None"
    by (simp add: utters_def)
  have h: "\<not> hears_my_account (0xA0 # js ''$50 '')" "\<not> hears_sell (0xA0 # js ''$50 '')"
    by (simp_all add: string_defs)
  have f: "sessions awaiting_amount (session_key ?u) = Some new_flow"
    using awaiting_amount_flow k by simp
  have s: "step new_flow = Choose_type" "ftype new_flow = Crypto"
    by (simp_all add: new_flow_def)
  have t: "js_trim (0xA0 # js ''$50 '') = js ''$50''" by (simp add: string_defs)
  have c: "chat ?u = 7" by (simp add: utters_def alice_def)
  show ?thesis
    using amount_step [OF f s(1) p _ h, of 1] f s p h k t c by simp
qed

section \<open>Actions by someone other than the administrator\<close>

text \<open>
  C2, as stated, fails on "no other stored state": the middleware that records every sender
  runs before the handler, so a refused action by a sender not seen before adds that
  sender's row to the users table.
\<close>

theorem refused_action_counterexample:
  "users (fst (handle_update 1 init (presses alice Approve 1))) \<noteq> users init"
  by (simp add: scenario_defs handler_defs Let_def)

text \<open>
  C2, amended. An approve or reject action whose sender is not the administrator, for any
  transaction id, changes no transaction and no flow; the only stored effect is that the
  sender, if not yet in the users table, is added to it with no account details (a known
  sender leaves the whole state unchanged); and the invoker gets the alert shown to the
  invoker only.
\<close>

theorem refused_action:
  assumes "payload u = Callback act i" "sender_id (sent_by u) \<noteq> admin"
  shows "transactions (fst (handle_update admin st u)) = transactions st
       \<and> sessions (fst (handle_update admin st u)) = sessions st
       \<and> users (fst (handle_update admin st u)) = insertUser (sent_by u) (clock u) (users st)
       \<and> (if sender_id (sent_by u) \<in> set (map u_id (users st))
          then fst (handle_update admin st u) = st
          else users (fst (handle_update admin st u)) = users st @
                 [\<lparr>u_id = sender_id (sent_by u),
                   username = (case sender_username (sent_by u) of Some [] \<Rightarrow> None | x \<Rightarrow> x),
                   full_name = js_trim (or_empty (first_name (sent_by u)) @ js '' '' @
                                 or_empty (last_name (sent_by u))),
                   account_details = None, u_created_at = clock u\<rparr>])
       \<and> snd (handle_update admin st u) = [Answer_cb_query Only_admin_action True]"
  using assms
  by (simp add: handle_update_def action_handler_def user_seen_def insertUser_def Let_def)

theorem refused_action_witness:
  "payload (presses alice Approve 1) = Callback Approve 1
   \<and> sender_id (sent_by (presses alice Approve 1)) \<noteq> 1
   \<and> fst (handle_update 1 pending_sale (presses alice Approve 1)) = pending_sale
   \<and> snd (handle_update 1 pending_sale (presses alice Approve 1)) =
       [Answer_cb_query Only_admin_action True]"
proof -
  have p: "payload (presses alice Approve 1) = Callback Approve 1"
    by (simp add: presses_def)
  have s: "sender_id (sent_by (presses alice Approve 1)) \<noteq> 1"
    by (simp add: presses_def alice_def)
  have i: "sender_id (sent_by (presses alice Approve 1)) \<in> set (map u_id (users pending_sale))"
    by (simp add: presses_def alice_def pending_sale_eval alice_row_def)
  show ?thesis
    using refused_action [OF p s, of pending_sale] p s i by simp
qed

section \<open>Text that no handler takes\<close>

text \<open>
  C8, as stated, fails: with no flow and nothing for the reconciler, the text
  \<^verbatim>\<open>hello\<close> runs through every handler and none replies. No message is sent.
\<close>

theorem unhandled_text_counterexample:
  "sessions init (session_key (says alice ''hello'')) = None
   \<and> reconciler_declines init (says alice ''hello'') (js ''hello'')
   \<and> snd (handle_update 1 init (says alice ''hello'')) = []"
  by (simp add: reconciler_declines_def latestApproved_def scenario_defs string_defs handler_defs
      getUser_def saved_details_def Let_def)

text \<open>
  C8, amended. For a text message from a user with no active flow that no earlier
  handler claims and that the reconciler declines, no transaction and no flow changes and
  the only stored effect is the recording of a sender not seen before. The user gets the
  guidance "not in the middle of a sale" only when the text is the finish command, the
  answer of the broadcast or help command when it is one of these, and otherwise no
  message at all.
\<close>

theorem unhandled_text:
  assumes "payload u = Text raw cmd" "cmd \<noteq> Some ''start''"
      and "\<not> hears_my_account raw" "\<not> hears_sell raw"
      and "sessions st (session_key u) = None"
      and "reconciler_declines st u raw"
  shows "transactions (fst (handle_update admin st u)) = transactions st
       \<and> sessions (fst (handle_update admin st u)) = sessions st
       \<and> users (fst (handle_update admin st u)) = insertUser (sent_by u) (clock u) (users st)
       \<and> snd (handle_update admin st u) =
           (if cmd = Some ''done'' then [Send_message (chat u) Not_in_sale]
            else if cmd = Some ''broadcast''
              then snd (broadcast_handler admin (user_seen st u) u raw)
            else if cmd = Some ''help'' then [Send_message (chat u) Help_text]
            else [])"
proof -
  have d: "post_approval_text_handler admin (user_seen st u) u raw = None"
    using assms(6) by (rule post_approval_declines)
  have f: "flow_text_handler admin (user_seen st u) u raw = None"
    using assms(5) by (simp add: flow_text_handler_def user_seen_def)
  show ?thesis
    using assms(1-5) d f
    by (simp add: handle_update_def handle_text_def done_handler_def broadcast_handler_def
        help_handler_def user_seen_def Let_def)
qed

theorem unhandled_text_witness:
  "payload (says alice ''hello'') = Text (js ''hello'') None
   \<and> \<not> hears_my_account (js ''hello'') \<and> \<not> hears_sell (js ''hello'')
   \<and> sessions approved_again (session_key (says alice ''hello'')) = None
   \<and> reconciler_declines approved_again (says alice ''hello'') (js ''hello'')
   \<and> fst (handle_update 1 approved_again (says alice ''hello'')) = approved_again
   \<and> snd (handle_update 1 approved_again (says alice ''hello'')) = []"
proof -
  let ?u = "says alice ''hello''"
  have p: "payload ?u = Text (js ''hello'') None"
    by (simp add: says_def utters_def)
  have h: "\<not> hears_my_account (js ''hello'')" "\<not> hears_sell (js ''hello'')"
    by (simp_all add: string_defs)
  have k: "sessions approved_again (session_key ?u) = None"
    by (simp add: session_key_def says_def utters_def alice_def approved_again_eval)
  have r: "reconciler_declines approved_again ?u (js ''hello'')"
    by (simp add: reconciler_declines_def string_defs)
  have i: "insertUser (sent_by ?u) (clock ?u) (users approved_again) = users approved_again"
    by (simp add: insertUser_def says_def utters_def alice_def approved_again_eval alice_row_def)
  have e: "fst (handle_update 1 approved_again ?u) = approved_again"
    using unhandled_text [OF p _ h k r, of 1] i
    by (simp add: state.equality)
  show ?thesis
    using unhandled_text [OF p _ h k r, of 1] p h k r e by simp
qed

section \<open>The lifecycle of a transaction\<close>

text \<open>
  C1, as stated, fails: the approval handler does not look at the current status. A
  rejected transaction that the administrator then approves becomes approved.
\<close>

theorem status_redecided_counterexample:
  "tx_status rejected_sale 1 = Some Rejected
   \<and> tx_status (fst (handle_update 1 rejected_sale (presses boss Approve 1))) 1 = Some Approved"
  by (simp add: tx_status_def status_of_def rejected_sale_eval scenario_defs handler_defs
      db_defs Let_def)

text \<open>
  C1, amended. In every run of updates in which the administrator's approve and reject
  actions reach a transaction only while it is pending, the statuses of the transaction
  (absent before its creation) move only along \<open>pending \<rightarrow> approved \<rightarrow> completed\<close> and
  \<open>pending \<rightarrow> rejected\<close>, and a rejected or completed transaction keeps its status to the
  end of the run. The transaction ids are the primary key of the table.
\<close>

theorem status_monotone:
  assumes "distinct (map tx_id (transactions st))" "decided_once admin st us i"
  shows "successively valid_step (history admin st us i)
       \<and> (if tx_status st i = Some Rejected \<or> tx_status st i = Some Completed
          then tx_status (run admin st us) i = tx_status st i else True)"
  using assms history_valid terminal_kept by simp

theorem status_monotone_witness:
  "distinct (map tx_id (transactions init))
   \<and> decided_once 1 init
       (sale_events @ [presses boss Approve 1, says alice ''bank: X'', presses alice Reject 1]) 1
   \<and> successively valid_step
       (history 1 init
          (sale_events @ [presses boss Approve 1, says alice ''bank: X'', presses alice Reject 1])
          1)
   \<and> history 1 init
       (sale_events @ [presses boss Approve 1, says alice ''bank: X'', presses alice Reject 1]) 1
       = [None, None, None, None, None, Some Pending, Some Approved, Some Completed,
          Some Completed]"
proof -
  let ?evs = "sale_events @
    [presses boss Approve 1, says alice ''bank: X'', presses alice Reject 1]"
  have d: "distinct (map tx_id (transactions init))" by (simp add: init_def)
  have g: "decided_once 1 init ?evs 1"
    by (simp add: sale_events_def redecides_def tx_status_def status_of_def scenario_defs
        string_defs handler_defs db_defs Let_def)
  have h: "history 1 init ?evs 1
       = [None, None, None, None, None, Some Pending, Some Approved, Some Completed,
          Some Completed]"
    by (simp add: sale_events_def tx_status_def status_of_def scenario_defs string_defs
        handler_defs db_defs parse_defs Let_def)
  show ?thesis
    using status_monotone [OF d g] d g h by simp
qed

section \<open>From intent to submission\<close>

text \<open>
  C3, as stated, fails: not every text is taken as the amount. After the intent selection
  the text \<^verbatim>\<open>My Account\<close> is answered by the account view, so \<^verbatim>\<open>BTC\<close> becomes the
  amount, the photo is refused, \<^verbatim>\<open>/done\<close> is stored as the counterparty, and no
  transaction is created.
\<close>

theorem sale_flow_counterexample:
  "transactions (run 1 init [says alice ''Sell Crypto'', says alice ''My Account'',
      says alice ''BTC'', shows_photo alice [''small'', ''large''], commands alice ''done''])
     = []
   \<and> sessions (run 1 init [says alice ''Sell Crypto'', says alice ''My Account'',
      says alice ''BTC'', shows_photo alice [''small'', ''large''], commands alice ''done''])
      (7, 7) =
       Some (new_flow\<lparr>f_amount := Some (js ''BTC''), f_currency_or_card := Some (js ''/done''),
                       step := Await_proof\<rparr>)"
  by (simp add: scenario_defs string_defs handler_defs db_defs Let_def)

text \<open>
  C3, amended. For every user, in whatever state: an intent selection, then an amount text
  and a counterparty text that no earlier handler claims (neither is the start command,
  \<^verbatim>\<open>My Account\<close>, \<^verbatim>\<open>Sell Crypto\<close> or \<^verbatim>\<open>Sell Giftcard\<close>), then at least one photo
  message, then the finish command, all in one chat, add exactly one transaction: it is
  pending, belongs to the user, carries the amount and the counterparty as
  \<^verbatim>\<open>String.prototype.trim\<close> leaves them and one attachment for each photo message. When
  the gateway accepts the confirmation sent to the user, the user's flow is absent
  afterwards.
\<close>

theorem sale_flow:
  assumes u1: "payload u1 = Text t1 c1" "c1 \<noteq> Some ''start''" "hears_sell t1"
      and u2: "payload u2 = Text t2 c2" "c2 \<noteq> Some ''start''"
              "\<not> hears_my_account t2" "\<not> hears_sell t2"
      and u3: "payload u3 = Text t3 c3" "c3 \<noteq> Some ''start''"
              "\<not> hears_my_account t3" "\<not> hears_sell t3"
      and ps: "ps \<noteq> []" "list_all is_photo ps"
      and u5: "is_finish_command u5"
      and key: "list_all (\<lambda>u. session_key u = k) (u1 # u2 # u3 # ps @ [u5])"
  shows "transactions (run admin st (u1 # u2 # u3 # ps @ [u5])) = transactions st @
           [\<lparr>tx_id = lastInsertRowid (transactions st), user_id = fst k,
             tx_kind = (if js_includes (js ''crypto'') (toLowerCase t1) then Crypto else Giftcard),
             amount = Some (js_trim t2), currency_or_card = Some (js_trim t3),
             status = Pending, proof_files = concat (map attachments_of ps),
             created_at = clock u5, admin_note = None\<rparr>]
       \<and> concat (map attachments_of ps) \<noteq> []
       \<and> (accepts u5 (confirmation u5) \<longrightarrow>
            sessions (run admin st (u1 # u2 # u3 # ps @ [u5])) k = None)"
proof -
  let ?ty = "if js_includes (js ''crypto'') (toLowerCase t1) then Crypto else Giftcard"
  let ?s1 = "fst (handle_update admin st u1)"
  let ?s2 = "fst (handle_update admin ?s1 u2)"
  let ?s3 = "fst (handle_update admin ?s2 u3)"
  let ?s4 = "run admin ?s3 ps"
  let ?s5 = "fst (handle_update admin ?s4 u5)"
  let ?f1 = "\<lparr>step = Choose_type, ftype = ?ty, f_amount = None, f_currency_or_card = None,
              f_proof = []\<rparr>"
  let ?f2 = "?f1\<lparr>f_amount := Some (js_trim t2), step := Currency\<rparr>"
  let ?f3 = "?f2\<lparr>f_currency_or_card := Some (js_trim t3), step := Await_proof\<rparr>"
  let ?f4 = "?f3\<lparr>f_proof := f_proof ?f3 @ concat (map attachments_of ps)\<rparr>"
  have k: "session_key u1 = k" "session_key u2 = k" "session_key u3 = k" "session_key u5 = k"
    "list_all (\<lambda>u. session_key u = k) ps"
    using key by simp_all
  have r: "run admin st (u1 # u2 # u3 # ps @ [u5]) = ?s5"
    by (simp add: run_append)
  have s1: "sessions ?s1 k = Some ?f1" "transactions ?s1 = transactions st"
    using intent_step [OF u1, of admin st] k by simp_all
  have s2: "sessions ?s2 k = Some ?f2" "transactions ?s2 = transactions st"
    using flow_text_step(1,3) [OF _ u2, of ?s1 ?f1 admin] s1 k by simp_all
  have s3: "sessions ?s3 k = Some ?f3" "transactions ?s3 = transactions st"
    using flow_text_step(2,3) [OF _ u3, of ?s2 ?f2 admin] s2 k by simp_all
  have s4: "sessions ?s4 k = Some ?f4" "transactions ?s4 = transactions st"
    using photos_run [OF s3(1) _ ps(2) k(5), of admin] s3(2) by simp_all
  have ne: "concat (map attachments_of ps) \<noteq> []"
    using ps by (rule photo_attachments)
  have s5: "transactions ?s5 = transactions ?s4 @
           [\<lparr>tx_id = lastInsertRowid (transactions ?s4), user_id = sender_id (sent_by u5),
             tx_kind = ftype ?f4, amount = f_amount ?f4, currency_or_card = f_currency_or_card ?f4,
             status = Pending, proof_files = f_proof ?f4, created_at = clock u5,
             admin_note = None\<rparr>]"
      "sessions ?s5 = (if accepts u5 (confirmation u5)
                       then (sessions ?s4)(session_key u5 := None) else sessions ?s4)"
    using done_step [OF u5, of ?s4 ?f4 admin] s4 k ne by simp_all
  have u: "sender_id (sent_by u5) = fst k"
    using k(4) by (auto simp: session_key_def)
  show ?thesis
    unfolding r using s5 s4 ne u k(4) by simp
qed

theorem sale_flow_witness:
  "hears_sell (js ''Sell Crypto'')
   \<and> \<not> hears_my_account (js ''50'') \<and> \<not> hears_sell (js ''50'')
   \<and> \<not> hears_my_account (js ''BTC'') \<and> \<not> hears_sell (js ''BTC'')
   \<and> list_all is_photo [shows_photo alice [''small'', ''large'']]
   \<and> is_finish_command (commands alice ''done'')
   \<and> list_all (\<lambda>u. session_key u = (7, 7))
        (says alice ''Sell Crypto'' # says alice ''50'' # says alice ''BTC'' #
         [shows_photo alice [''small'', ''large'']] @ [commands alice ''done''])
   \<and> accepts (commands alice ''done'') (confirmation (commands alice ''done''))
   \<and> transactions (run 1 init
        (says alice ''Sell Crypto'' # says alice ''50'' # says alice ''BTC'' #
         [shows_photo alice [''small'', ''large'']] @ [commands alice ''done''])) = [first_sale]
   \<and> sessions (run 1 init
        (says alice ''Sell Crypto'' # says alice ''50'' # says alice ''BTC'' #
         [shows_photo alice [''small'', ''large'']] @ [commands alice ''done''])) (7, 7) = None"
proof -
  have p: "payload (says alice ''Sell Crypto'') = Text (js ''Sell Crypto'') None"
    "payload (says alice ''50'') = Text (js ''50'') None"
    "payload (says alice ''BTC'') = Text (js ''BTC'') None"
    by (simp_all add: says_def utters_def)
  have n: "(None :: string option) \<noteq> Some ''start''" by simp
  have h1: "hears_sell (js ''Sell Crypto'')" by (simp add: string_defs)
  have h2: "\<not> hears_my_account (js ''50'')" "\<not> hears_sell (js ''50'')"
    by (simp_all add: string_defs)
  have h3: "\<not> hears_my_account (js ''BTC'')" "\<not> hears_sell (js ''BTC'')"
    by (simp_all add: string_defs)
  have m: "[shows_photo alice [''small'', ''large'']] \<noteq> []"
    "list_all is_photo [shows_photo alice [''small'', ''large'']]"
    by (simp_all add: is_photo_def shows_photo_def)
  have f: "is_finish_command (commands alice ''done'')"
    by (simp add: is_finish_command_def commands_def js_def)
  have k: "list_all (\<lambda>u. session_key u = (7, 7))
        (says alice ''Sell Crypto'' # says alice ''50'' # says alice ''BTC'' #
         [shows_photo alice [''small'', ''large'']] @ [commands alice ''done''])"
    by (simp add: session_key_def scenario_defs)
  have a: "accepts (commands alice ''done'') (confirmation (commands alice ''done''))"
    by (simp add: commands_def)
  have v: "(if js_includes (js ''crypto'') (toLowerCase (js ''Sell Crypto''))
            then Crypto else Giftcard) = Crypto"
    "js_trim (js ''50'') = js ''50''" "js_trim (js ''BTC'') = js ''BTC''"
    "concat (map attachments_of [shows_photo alice [''small'', ''large'']]) =
       [\<lparr>file_id = ''large'', file_type = ''photo'', date = 0\<rparr>]"
    "clock (commands alice ''done'') = 0" "lastInsertRowid (transactions init) = 1"
    by (simp_all add: string_defs attachments_of_def shows_photo_def commands_def init_def
        lastInsertRowid_def)
  show ?thesis
    using sale_flow [OF p(1) n h1 p(2) n h2 p(3) n h3 m f k, of 1 init] h1 h2 h3 m f k a v
    by (simp add: init_def first_sale_def)
qed

section \<open>After the approval: confirming the stored details\<close>

text \<open>
  C5, as stated, fails for a user who has started a new flow: with an approved
  transaction, stored details and the flow awaiting the amount, the text \<^verbatim>\<open>CONFIRM\<close>
  is taken by the flow handler as the amount, and the transaction stays approved.
\<close>

theorem confirm_mid_flow_counterexample:
  "latestApproved (transactions mid_flow) 7 = Some second_sale
   \<and> saved_details (getUser (users mid_flow) 7) =
       Some [(js ''a'', js ''1''), (js ''b'', js ''2'')]
   \<and> sessions mid_flow (7, 7) = Some new_flow
   \<and> tx_status (fst (handle_update 1 mid_flow (says alice ''CONFIRM''))) 2 = Some Approved
   \<and> sessions (fst (handle_update 1 mid_flow (says alice ''CONFIRM''))) (7, 7) =
       Some (new_flow\<lparr>f_amount := Some (js ''CONFIRM''), step := Currency\<rparr>)"
  by (simp add: mid_flow_eval approved_again_eval tx_status_def status_of_def scenario_defs
      string_defs handler_defs db_defs Let_def)

text \<open>
  C5, amended. For every user who has a latest approved transaction \<open>T\<close> and stored
  account details, and whose flow is absent or awaits the proof, a text message equal to
  \<^verbatim>\<open>CONFIRM\<close> without regard to case sets the status of \<open>T\<close> to completed, leaves the
  users table (and so the stored details) and the flows unchanged, and tells the user and
  then the administrator.
\<close>

theorem confirm_completes:
  assumes "payload u = Text raw cmd" "cmd \<noteq> Some ''start''" "cmd \<noteq> Some ''done''"
      and "toUpperCase raw = js ''CONFIRM''"
      and "flow_gives_way st u"
      and "latestApproved (transactions st) (sender_id (sent_by u)) = Some la"
      and "saved_details (getUser (users st) (sender_id (sent_by u))) = Some d"
  shows "tx_status (fst (handle_update admin st u)) (tx_id la) = Some Completed
       \<and> transactions (fst (handle_update admin st u)) =
           updateTxStatus (tx_id la) Completed (User_confirmed_saved (clock u)) (transactions st)
       \<and> users (fst (handle_update admin st u)) = users st
       \<and> sessions (fst (handle_update admin st u)) = sessions st
       \<and> snd (handle_update admin st u) =
           attempt (accepts u)
             [Send_message (chat u) Saved_details_attached,
              Send_message admin (Completed_confirmed (tx_id la) (sender_id (sent_by u)) d)]"
proof -
  let ?uid = "sender_id (sent_by u)"
  let ?calls = "attempt (accepts u)
             [Send_message (chat u) Saved_details_attached,
              Send_message admin (Completed_confirmed (tx_id la) ?uid d)]"
  have h: "\<not> hears_my_account raw" "\<not> hears_sell raw"
    using assms(4) by (rule confirm_not_hears)+
  have f: "flow_text_handler admin (user_seen st u) u raw = None"
    using assms(5) by (rule flow_gives_way_next)
  have k: "insertUser (sent_by u) (clock u) (users st) = users st"
    using saved_known [OF assms(7)] by (simp add: insertUser_def)
  have s: "user_seen st u = st"
    using k by (simp add: user_seen_def)
  have p: "post_approval_text_handler admin st u raw =
      Some (st\<lparr>transactions := updateTxStatus (tx_id la) Completed
                  (User_confirmed_saved (clock u)) (transactions st)\<rparr>, ?calls)"
    using assms(4,6,7) confirm_trim [OF assms(4)]
    by (simp add: post_approval_text_handler_def reconciler_has_saved_def Let_def)
  have r: "handle_update admin st u =
      (st\<lparr>transactions := updateTxStatus (tx_id la) Completed
                  (User_confirmed_saved (clock u)) (transactions st)\<rparr>, ?calls)"
    using assms(1-3) h f p s by (simp add: handle_update_def handle_text_def)
  have "la \<in> set (transactions st)"
    using assms(6) by (rule latestApproved_Some)
  then show ?thesis
    unfolding r by (simp add: tx_status_def status_of_completed)
qed

theorem confirm_completes_witness:
  "payload (says alice ''confirm'') = Text (js ''confirm'') None
   \<and> toUpperCase (js ''confirm'') = js ''CONFIRM''
   \<and> flow_gives_way approved_again (says alice ''confirm'')
   \<and> latestApproved (transactions approved_again) (sender_id (sent_by (says alice ''confirm'')))
       = Some second_sale
   \<and> saved_details (getUser (users approved_again) (sender_id (sent_by (says alice ''confirm''))))
       = Some [(js ''a'', js ''1''), (js ''b'', js ''2'')]
   \<and> tx_status (fst (handle_update 1 approved_again (says alice ''confirm''))) 2 = Some Completed
   \<and> users (fst (handle_update 1 approved_again (says alice ''confirm''))) = users approved_again
   \<and> snd (handle_update 1 approved_again (says alice ''confirm'')) =
       [Send_message 7 Saved_details_attached,
        Send_message 1 (Completed_confirmed 2 7 [(js ''a'', js ''1''), (js ''b'', js ''2'')])]"
proof -
  let ?u = "says alice ''confirm''"
  have p: "payload ?u = Text (js ''confirm'') None" by (simp add: says_def utters_def)
  have n: "(None :: string option) \<noteq> Some ''start''" "(None :: string option) \<noteq> Some ''done''"
    by simp_all
  have c: "toUpperCase (js ''confirm'') = js ''CONFIRM''" by (simp add: string_defs)
  have i: "sender_id (sent_by ?u) = 7" "chat ?u = 7" "accepts ?u = (\<lambda>c. True)"
    by (simp_all add: says_def utters_def alice_def)
  have f: "flow_gives_way approved_again ?u"
    by (simp add: flow_gives_way_def session_key_def says_def utters_def alice_def
        approved_again_eval)
  have l: "latestApproved (transactions approved_again) (sender_id (sent_by ?u)) = Some second_sale"
    and s: "saved_details (getUser (users approved_again) (sender_id (sent_by ?u)))
       = Some [(js ''a'', js ''1''), (js ''b'', js ''2'')]"
    using approved_again_latest i by simp_all
  have t: "tx_id second_sale = 2" by (simp add: second_sale_def)
  show ?thesis
    using confirm_completes [OF p n c f l s, of 1] p c f l s i t by simp
qed

section \<open>After the approval: sending new details\<close>

text \<open>
  C6, as stated, fails in the same way: with the flow awaiting the amount, the text
  \<^verbatim>\<open>a: 9\<close>, \<^verbatim>\<open>c: 3\<close> becomes the amount; the stored details and the approved
  transaction stay as they were.
\<close>

theorem details_mid_flow_counterexample:
  "latestApproved (transactions mid_flow) 7 = Some second_sale
   \<and> js_includes (js '':'') (js ''a: 9\<newline>c: 3'')
   \<and> parse_account_details (js_trim (js ''a: 9\<newline>c: 3'')) =
       [(js ''a'', js ''9''), (js ''c'', js ''3'')]
   \<and> tx_status (fst (handle_update 1 mid_flow (says alice ''a: 9\<newline>c: 3''))) 2 = Some Approved
   \<and> saved_details (getUser (users (fst (handle_update 1 mid_flow
         (says alice ''a: 9\<newline>c: 3'')))) 7) = Some [(js ''a'', js ''1''), (js ''b'', js ''2'')]"
  by (simp add: mid_flow_eval approved_again_eval tx_status_def status_of_def scenario_defs
      string_defs handler_defs db_defs parse_defs Let_def)

text \<open>
  C6, amended. For every user holding a latest approved transaction \<open>T\<close> whose flow is
  absent or awaits the proof, a text message that is neither the start nor the finish
  command, contains a colon and parses to at least one pair replaces the user's stored
  details by exactly the parsed mapping (nothing of the old mapping survives) and sets
  the status of \<open>T\<close> to completed. The parsed mapping is that of the program's parser on
  the text as \<^verbatim>\<open>String.prototype.trim\<close> leaves it.
\<close>

theorem details_replace:
  assumes "payload u = Text raw cmd" "cmd \<noteq> Some ''start''" "cmd \<noteq> Some ''done''"
      and "js_includes (js '':'') raw"
      and "parse_account_details (js_trim raw) \<noteq> []"
      and "flow_gives_way st u"
      and "latestApproved (transactions st) (sender_id (sent_by u)) = Some la"
  shows "saved_details (getUser (users (fst (handle_update admin st u))) (sender_id (sent_by u)))
           = Some (parse_account_details (js_trim raw))
       \<and> tx_status (fst (handle_update admin st u)) (tx_id la) = Some Completed
       \<and> users (fst (handle_update admin st u)) =
           upsertAccount (sender_id (sent_by u)) (parse_account_details (js_trim raw))
             (insertUser (sent_by u) (clock u) (users st))
       \<and> transactions (fst (handle_update admin st u)) =
           updateTxStatus (tx_id la) Completed (User_provided_details (clock u)) (transactions st)
       \<and> sessions (fst (handle_update admin st u)) = sessions st
       \<and> snd (handle_update admin st u) =
           attempt (accepts u)
             [Send_message (chat u) Details_saved,
              Send_message admin (Completed_provided (tx_id la) (sender_id (sent_by u))
                                    (parse_account_details (js_trim raw)))]"
proof -
  let ?uid = "sender_id (sent_by u)" and ?obj = "parse_account_details (js_trim raw)"
  let ?us = "insertUser (sent_by u) (clock u) (users st)"
  let ?calls = "attempt (accepts u)
             [Send_message (chat u) Details_saved,
              Send_message admin (Completed_provided (tx_id la) ?uid ?obj)]"
  note c = colon_facts [OF assms(4)]
  have f: "flow_text_handler admin (user_seen st u) u raw = None"
    using assms(6) by (rule flow_gives_way_next)
  have p: "post_approval_text_handler admin (user_seen st u) u raw =
      Some ((user_seen st u)\<lparr>users := upsertAccount ?uid ?obj ?us,
                transactions := updateTxStatus (tx_id la) Completed
                  (User_provided_details (clock u)) (transactions st)\<rparr>, ?calls)"
    using assms(5,7) c(1,2)
    by (simp add: post_approval_text_handler_def user_seen_def Let_def)
  have r: "handle_update admin st u =
      ((user_seen st u)\<lparr>users := upsertAccount ?uid ?obj ?us,
                transactions := updateTxStatus (tx_id la) Completed
                  (User_provided_details (clock u)) (transactions st)\<rparr>, ?calls)"
    using assms(1-3) c(3,4) f p by (simp add: handle_update_def handle_text_def)
  have "la \<in> set (transactions st)"
    using assms(7) by (rule latestApproved_Some)
  then show ?thesis
    unfolding r by (simp add: tx_status_def status_of_completed saved_after_upsert user_seen_def)
qed

text \<open>
  The witness: the lines \<^verbatim>\<open>a:\<close> no-break space \<^verbatim>\<open>9\<close> and \<^verbatim>\<open>c: 3\<close> after a leading
  no-break space replace the stored \<^verbatim>\<open>a: 1\<close>, \<^verbatim>\<open>b: 2\<close> by \<^verbatim>\<open>a: 9\<close>, \<^verbatim>\<open>c: 3\<close>.
\<close>

theorem details_replace_witness:
  "payload (utters alice (0xA0 # js ''a:'' @ 0xA0 # js ''9\<newline>c: 3'')) =
     Text (0xA0 # js ''a:'' @ 0xA0 # js ''9\<newline>c: 3'') None
   \<and> js_includes (js '':'') (0xA0 # js ''a:'' @ 0xA0 # js ''9\<newline>c: 3'')
   \<and> parse_account_details (js_trim (0xA0 # js ''a:'' @ 0xA0 # js ''9\<newline>c: 3'')) =
       [(js ''a'', js ''9''), (js ''c'', js ''3'')]
   \<and> flow_gives_way approved_again (utters alice (0xA0 # js ''a:'' @ 0xA0 # js ''9\<newline>c: 3''))
   \<and> latestApproved (transactions approved_again)
         (sender_id (sent_by (utters alice (0xA0 # js ''a:'' @ 0xA0 # js ''9\<newline>c: 3''))))
       = Some second_sale
   \<and> saved_details (getUser (users approved_again) 7) =
       Some [(js ''a'', js ''1''), (js ''b'', js ''2'')]
   \<and> saved_details (getUser (users (fst (handle_update 1 approved_again
         (utters alice (0xA0 # js ''a:'' @ 0xA0 # js ''9\<newline>c: 3''))))) 7) =
       Some [(js ''a'', js ''9''), (js ''c'', js ''3'')]
   \<and> tx_status (fst (handle_update 1 approved_again
         (utters alice (0xA0 # js ''a:'' @ 0xA0 # js ''9\<newline>c: 3'')))) 2 = Some Completed"
proof -
  let ?t = "0xA0 # js ''a:'' @ 0xA0 # js ''9\<newline>c: 3''"
  let ?u = "utters alice ?t"
  have p: "payload ?u = Text ?t None" by (simp add: utters_def)
  have n: "(None :: string option) \<noteq> Some ''start''" "(None :: string option) \<noteq> Some ''done''"
    by simp_all
  have c: "js_includes (js '':'') ?t" by (simp add: js_def)
  have o: "parse_account_details (js_trim ?t) = [(js ''a'', js ''9''), (js ''c'', js ''3'')]"
    by (simp add: string_defs parse_defs)
  then have o': "parse_account_details (js_trim ?t) \<noteq> []" by simp
  have i: "sender_id (sent_by ?u) = 7" "chat ?u = 7" by (simp_all add: utters_def alice_def)
  have f: "flow_gives_way approved_again ?u"
    by (simp add: flow_gives_way_def session_key_def utters_def alice_def approved_again_eval)
  have l: "latestApproved (transactions approved_again) (sender_id (sent_by ?u)) = Some second_sale"
    using approved_again_latest i by simp
  have t: "tx_id second_sale = 2" by (simp add: second_sale_def)
  note d = details_replace [OF p n c o' f l, of 1]
  show ?thesis
    using d [THEN conjunct1] d [THEN conjunct2, THEN conjunct1] p c o f l i t
      approved_again_latest(2)
    by simp
qed

section \<open>The stored account details\<close>

text \<open>
  C10. Every account-details mapping that a step of the program writes holds at least one
  entry with a non-empty key; hence in every state reached from the empty database each
  user's stored details are absent or such a mapping, and on every row the approval
  handler's test (a non-empty mapping) and the reconciler's test (details exist) agree.
\<close>

theorem stored_details_nonempty:
  "written_ok st (fst (handle_update admin st u))
   \<and> users_ok (users (run admin init us))
   \<and> checks_agree (users (run admin init us))"
proof -
  have "users_ok (users init)" by (simp add: init_def users_ok_def)
  then have "users_ok (users (run admin init us))" by (rule run_users_ok)
  then show ?thesis by (simp add: handle_update_written users_ok_agree)
qed

theorem stored_details_nonempty_witness:
  "users settled_sale =
     [alice_row (Some [(js ''a'', js ''1''), (js ''b'', js ''2'')]), boss_row]
   \<and> users_ok (users settled_sale)
   \<and> checks_agree (users settled_sale)
   \<and> written_ok pending_sale (fst (handle_update 1 pending_sale (presses boss Approve 1)))"
  using stored_details_nonempty [of pending_sale 1 "presses boss Approve 1"
      "sale_events @ [presses boss Approve 1, says alice ''a: 1\<newline>b: 2'']"]
    settled_sale_eval(2)
  by (simp add: settled_sale_def)

section \<open>The parser and the key \<^verbatim>\<open>__proto__\<close>\<close>

text \<open>
  C7. The parser is to keep every line that gives a non-empty key. The code misses one
  key: for the text \<^verbatim>\<open>__proto__: x\<close> the specification's parser yields the pair
  \<^verbatim>\<open>__proto__\<close>, \<^verbatim>\<open>x\<close>, while the code's assignment to that key adds nothing, the
  parsed object is empty, the user is asked to retry and the transaction stays approved.
  For every other key the code gives the mapping of the specification's parser
  (\<open>parse_refines_spec\<close>); the example of the claim and the reply to a text without pairs
  hold (\<open>parse_example\<close>, \<open>zero_pairs_reply\<close>).
\<close>

theorem proto_key_dropped:
  "spec_pairs (js ''__proto__: x'') = [(js ''__proto__'', js ''x'')]
   \<and> spec_parse (js ''__proto__: x'') = [(js ''__proto__'', js ''x'')]
   \<and> parse_account_details (js ''__proto__: x'') = []
   \<and> snd (handle_update 1 approved_again (says alice ''__proto__: x'')) =
       [Send_message 7 Could_not_parse]
   \<and> tx_status (fst (handle_update 1 approved_again (says alice ''__proto__: x''))) 2 =
       Some Approved"
  by (simp add: spec_pairs_def spec_parse_def spec_pair_def spec_split_first_def
      List.map_filter_simps approved_again_eval tx_status_def status_of_def scenario_defs
      string_defs handler_defs db_defs parse_defs Let_def)

end
